theory Spec2Isabelle
  imports Main "HOL-Library.Char_ord" "HOL-Library.List_Lexorder"
begin

section \<open>Python strings\<close>

text \<open>
  A Python \<open>str\<close> is a sequence of code points. It is modelled as a \<open>string\<close>, where a
  \<open>char\<close> stands for the code point of the same number, U+0000 to U+00FF: \<open>length\<close>
  counts code points, and \<open>CHR 0xDF\<close> is the sharp s of the label \<open>Ma\<ss>e\<close>. Text with a code
  point above U+00FF is outside the model. Strings are compared as Python compares them,
  code point by code point (the orders of \<open>Char_ord\<close> and \<open>List_Lexorder\<close>).
\<close>

definition isspace :: "char \<Rightarrow> bool" where
  \<comment> \<open>\<open>str.isspace\<close> for one code point below 256: tab to carriage return, the four
      separators U+001C to U+001F, space, next line U+0085, no-break space U+00A0\<close>
  "isspace c =
     (let n = (of_char c :: nat)
      in (9 \<le> n \<and> n \<le> 13) \<or> (28 \<le> n \<and> n \<le> 32) \<or> n = 133 \<or> n = 160)"

definition strip :: "string \<Rightarrow> string" where
  \<comment> \<open>\<open>s.strip()\<close>: leading and trailing whitespace removed\<close>
  "strip s = rev (dropWhile isspace (rev (dropWhile isspace s)))"

definition lower_char :: "char \<Rightarrow> char" where
  \<comment> \<open>lower case of one code point below 256: A to Z, and U+00C0 to U+00DE without
      the multiplication sign U+00D7\<close>
  "lower_char c =
     (let n = (of_char c :: nat)
      in if (65 \<le> n \<and> n \<le> 90) \<or> (192 \<le> n \<and> n \<le> 222 \<and> n \<noteq> 215)
         then char_of (n + 32) else c)"

definition lower :: "string \<Rightarrow> string" where
  \<comment> \<open>\<open>s.lower()\<close>\<close>
  "lower s = map lower_char s"

definition isdigit_char :: "char \<Rightarrow> bool" where
  \<comment> \<open>the code points below 256 that \<open>str.isdigit\<close> accepts: 0 to 9 and the
      superscripts U+00B2, U+00B3, U+00B9\<close>
  "isdigit_char c =
     (let n = (of_char c :: nat)
      in (48 \<le> n \<and> n \<le> 57) \<or> n = 178 \<or> n = 179 \<or> n = 185)"

definition isdigit :: "string \<Rightarrow> bool" where
  \<comment> \<open>\<open>s.isdigit()\<close>: false on the empty string\<close>
  "isdigit s = (s \<noteq> [] \<and> list_all isdigit_char s)"

fun split_sep :: "char \<Rightarrow> string \<Rightarrow> string list" where
  \<comment> \<open>\<open>s.split(d)\<close> for a separator of one character: empty pieces are kept\<close>
  "split_sep d [] = [[]]"
| "split_sep d (c # cs) =
     (if c = d then [] # split_sep d cs
      else (case split_sep d cs of
              [] \<Rightarrow> [[c]]
            | p # ps \<Rightarrow> (c # p) # ps))"

fun words_from :: "string \<Rightarrow> string \<Rightarrow> string list" where
  \<comment> \<open>the words of the text still to read, \<open>w\<close> being the word read so far\<close>
  "words_from w [] = (if w = [] then [] else [w])"
| "words_from w (c # cs) =
     (if isspace c then (if w = [] then words_from [] cs else w # words_from [] cs)
      else words_from (w @ [c]) cs)"

definition split_ws :: "string \<Rightarrow> string list" where
  \<comment> \<open>\<open>s.split()\<close>: the maximal runs of non-whitespace, in order\<close>
  "split_ws s = words_from [] s"

definition replace_char :: "char \<Rightarrow> char \<Rightarrow> string \<Rightarrow> string" where
  \<comment> \<open>\<open>s.replace(a, b)\<close> for single characters\<close>
  "replace_char a b s = map (\<lambda>c. if c = a then b else c) s"

definition startswith :: "string \<Rightarrow> string \<Rightarrow> bool" where
  "startswith s p = (take (length p) s = p)"

definition endswith :: "string \<Rightarrow> string \<Rightarrow> bool" where
  "endswith s p = (length p \<le> length s \<and> drop (length s - length p) s = p)"

definition endswith_any :: "string \<Rightarrow> string list \<Rightarrow> bool" where
  \<comment> \<open>\<open>s.endswith((p1, p2, ...))\<close>\<close>
  "endswith_any s ps = list_ex (endswith s) ps"

fun join :: "string \<Rightarrow> string list \<Rightarrow> string" where
  \<comment> \<open>\<open>sep.join(parts)\<close>\<close>
  "join sep [] = []"
| "join sep [p] = p"
| "join sep (p # q # ps) = p @ sep @ join sep (q # ps)"

definition py_slice :: "'a list \<Rightarrow> int \<Rightarrow> int \<Rightarrow> 'a list" where
  \<comment> \<open>\<open>xs[a:b]\<close>: a negative bound counts from the end, both bounds are clipped\<close>
  "py_slice xs a b =
     (let n = int (length xs);
          lo = (if a < 0 then max 0 (a + n) else min a n);
          hi = (if b < 0 then max 0 (b + n) else min b n)
      in if lo < hi then take (nat (hi - lo)) (drop (nat lo) xs) else [])"

section \<open>Value Normalizer\<close>

datatype pyval =
    PyNone
  | PyStr string
  | PyObj "string option"
  \<comment> \<open>a cell value: \<open>None\<close>, a text, or any other object (a number, a date, the float
      NaN of an empty cell), given by what \<open>str\<close> makes of it: \<open>Some\<close> text, or \<open>None\<close>
      when \<open>str\<close> raises\<close>

fun py_str :: "pyval \<Rightarrow> string option" where
  \<comment> \<open>\<open>str(val)\<close>, \<open>None\<close> when it raises\<close>
  "py_str PyNone = Some ''None''"
| "py_str (PyStr s) = Some s"
| "py_str (PyObj r) = r"

definition safe_value_with :: "string \<Rightarrow> pyval \<Rightarrow> string" where
  \<comment> \<open>\<open>safe_value\<close>, the text of the missing sentinel being the first argument\<close>
  "safe_value_with sentinel val =
     (if val = PyNone then sentinel
      else (case py_str val of
              None \<Rightarrow> sentinel
            | Some t \<Rightarrow>
                (let s = strip t
                 in if s = [] \<or> lower s = ''nan'' then sentinel else s)))"

definition safe_value :: "pyval \<Rightarrow> string" where
  \<comment> \<open>src/main.py\<close>
  "safe_value = safe_value_with ''Empty Cell''"

definition safe_value_de :: "pyval \<Rightarrow> string" where
  \<comment> \<open>src/aktuell.py\<close>
  "safe_value_de = safe_value_with ''Leere Zelle''"

section \<open>Facts sentences of the Prompt Builder\<close>

definition build_list_sentences_with ::
  "string \<Rightarrow> string \<Rightarrow> string \<Rightarrow> string \<Rightarrow> string \<Rightarrow> string \<times> string" where
  "build_list_sentences_with sentinel manufacturer material dimensions year =
     (let parts_de = []; parts_en = [];
          (parts_de, parts_en) =
             (if manufacturer \<noteq> sentinel
              then (parts_de @ [''Hersteller: '' @ manufacturer],
                    parts_en @ [''Manufacturer: '' @ manufacturer])
              else (parts_de, parts_en));
          (parts_de, parts_en) =
             (if material \<noteq> sentinel
              then (parts_de @ [''Material: '' @ material],
                    parts_en @ [''Material: '' @ material])
              else (parts_de, parts_en));
          (parts_de, parts_en) =
             (if dimensions \<noteq> sentinel
              then (parts_de @ [''Ma'' @ [CHR 0xDF] @ ''e: '' @ dimensions],
                    parts_en @ [''Dimensions: '' @ dimensions])
              else (parts_de, parts_en));
          (parts_de, parts_en) =
             (if year \<noteq> sentinel
              then (parts_de @ [''Jahr: '' @ year],
                    parts_en @ [''Year: '' @ year])
              else (parts_de, parts_en))
      in (join ''; '' parts_de, join ''; '' parts_en))"

definition build_list_sentences :: "string \<Rightarrow> string \<Rightarrow> string \<Rightarrow> string \<Rightarrow> string \<times> string" where
  \<comment> \<open>src/main.py\<close>
  "build_list_sentences = build_list_sentences_with ''Empty Cell''"

definition build_list_sentences_de :: "string \<Rightarrow> string \<Rightarrow> string \<Rightarrow> string \<Rightarrow> string \<times> string" where
  \<comment> \<open>src/aktuell.py\<close>
  "build_list_sentences_de = build_list_sentences_with ''Leere Zelle''"

section \<open>The world outside the program\<close>

datatype pyexn = PyExn string
  \<comment> \<open>an exception of class \<open>Exception\<close> or below; the text is \<open>str(e)\<close>\<close>

fun exn_str :: "pyexn \<Rightarrow> string" where
  "exn_str (PyExn m) = m"

datatype response =
    Success string
  | Malformed pyexn
  | HttpError nat string
  | RequestError string
  \<comment> \<open>what one \<open>requests.post\<close> with the two statements after it does: \<open>Success\<close> is a
      good status with the content text of the first choice; \<open>Malformed\<close> a good status
      whose body has not that shape, the lookup raising an exception that is no
      \<open>RequestException\<close> (\<open>KeyError\<close>, \<open>IndexError\<close>, \<open>TypeError\<close>); \<open>HttpError\<close> the
      \<open>HTTPError\<close> of \<open>raise_for_status\<close>, with the status code and \<open>str(e)\<close>;
      \<open>RequestError\<close> any other \<open>RequestException\<close> (connection, timeout), with \<open>str(e)\<close>\<close>

record world =
  path_exists :: "string \<Rightarrow> bool"
  listdir :: "string \<Rightarrow> pyexn + string list"
  encode_image :: "string \<Rightarrow> pyexn + string"
  post :: "nat \<Rightarrow> response"

text \<open>
  The file system and the service are read through \<open>world\<close>: \<open>path_exists\<close> is
  \<open>os.path.exists\<close>, \<open>listdir\<close> is \<open>os.listdir\<close> (the entries in the order the system
  gives them, or the error raised), \<open>encode_image\<close> is the function of that name (the
  base64 text of the file, or the error raised by opening or reading it), and
  \<open>post w n\<close> is the outcome of the request number \<open>n\<close> of the run, counted from 0. The
  request payload is not part of the model: no branch of the program depends on it.
\<close>

record state =
  sleeps :: "nat list"
  requests :: nat

text \<open>
  What the program does to the world: \<open>sleeps\<close> lists the arguments of the calls of
  \<open>time.sleep\<close> in order of time, \<open>requests\<close> counts the requests sent.
\<close>

definition MAX_IMAGES :: int where
  "MAX_IMAGES = 3"

definition API_WAIT :: nat where
  "API_WAIT = 10"

definition path_join :: "string \<Rightarrow> string \<Rightarrow> string" where
  \<comment> \<open>\<open>os.path.join(a, b)\<close> of \<open>posixpath\<close>\<close>
  "path_join a b =
     (if startswith b ''/'' then b
      else if a = [] \<or> endswith a ''/'' then a @ b
      else a @ ''/'' @ b)"

definition basename :: "string \<Rightarrow> string" where
  \<comment> \<open>\<open>os.path.basename(p)\<close> of \<open>posixpath\<close>: what follows the last slash\<close>
  "basename p = rev (takeWhile (\<lambda>c. c \<noteq> CHR ''/'') (rev p))"

section \<open>Image Locator\<close>

definition is_year :: "string \<Rightarrow> bool" where
  \<comment> \<open>the test \<open>p.isdigit() and len(p) == 4\<close>\<close>
  "is_year p = (isdigit p \<and> length p = 4)"

definition find_images_for_object ::
  "world \<Rightarrow> string \<Rightarrow> string \<Rightarrow> int \<Rightarrow> pyexn + string list" where
  "find_images_for_object w base_folder object_id max_images =
     (case List.find is_year (split_sep CHR ''/'' object_id) of
        None \<Rightarrow> Inr []
      | Some year \<Rightarrow>
          (let folder = path_join base_folder year
           in if \<not> path_exists w folder then Inr []
              else (case split_ws (replace_char CHR ''/'' CHR ''-'' object_id) of
                      [] \<Rightarrow> Inl (PyExn ''list index out of range'')
                    | prefix # _ \<Rightarrow>
                        (case listdir w folder of
                           Inl e \<Rightarrow> Inl e
                         | Inr entries \<Rightarrow>
                             (let candidates =
                                    filter (\<lambda>f. endswith_any (lower f) [''.jpg'', ''.jpeg'', ''.png''])
                                      entries;
                                  matches = sort (filter (\<lambda>f. startswith f prefix) candidates)
                              in Inr (map (path_join folder) (py_slice matches 0 max_images)))))))"

text \<open>
  src/aktuell.py returns \<open>matches[:use_count]\<close> with
  \<open>use_count = min(len(matches), max_images)\<close>, which is the same slice for every
  \<open>max_images\<close>; it prints what it finds and is otherwise the function above.
\<close>

section \<open>Generation Client\<close>

fun encode_all :: "world \<Rightarrow> string list \<Rightarrow> pyexn + string list" where
  \<comment> \<open>the loop that fills \<open>image_contents\<close>: the first image that fails ends it\<close>
  "encode_all w [] = Inr []"
| "encode_all w (path # paths) =
     (case encode_image w path of
        Inl e \<Rightarrow> Inl e
      | Inr base64_image \<Rightarrow>
          (case encode_all w paths of
             Inl e \<Rightarrow> Inl e
           | Inr urls \<Rightarrow> Inr ((''data:image/jpeg;base64,'' @ base64_image) # urls)))"

fun attempts :: "world \<Rightarrow> nat list \<Rightarrow> state \<Rightarrow> (pyexn + string) \<times> state" where
  \<comment> \<open>the loop \<open>for attempt in range(3)\<close>, over the values of \<open>attempt\<close> still to come\<close>
  "attempts w [] st = (Inr ''Error: Aborted after too many failed attempts'', st)"
| "attempts w (attempt # rest) st =
     (let response = post w (requests st);
          st = st\<lparr>requests := requests st + 1\<rparr>
      in case response of
           Success text \<Rightarrow> (Inr text, st)
         | Malformed e \<Rightarrow> (Inl e, st)
         | HttpError status msg \<Rightarrow>
             if status = 429
             then (let wait = 5 * (attempt + 1)
                   in attempts w rest (st\<lparr>sleeps := sleeps st @ [wait]\<rparr>))
             else (Inr (''Error: API error: '' @ msg), st)
         | RequestError msg \<Rightarrow> (Inr (''Error: Connection error: '' @ msg), st))"

record prompt =
  p_object_id :: string
  p_title :: string
  p_image_list :: string
  p_manufacturer :: string
  p_material :: string
  p_dimensions :: string
  p_year :: string
  p_de_list_sentence :: string
  p_en_list_sentence :: string

text \<open>
  The prompt is the fixed text of \<open>BASE_PROMPT_TEMPLATE\<close> with nine slots filled; it is
  represented by the values of the slots.
\<close>

definition generate_catalog_text ::
  "world \<Rightarrow> string list \<Rightarrow> prompt \<Rightarrow> state \<Rightarrow> (pyexn + string) \<times> state" where
  "generate_catalog_text w image_paths prompt_text st =
     (case encode_all w image_paths of
        Inl e \<Rightarrow> (Inl e, st)
      | Inr image_contents \<Rightarrow> attempts w [0..<3] st)"

text \<open>
  src/aktuell.py has the same loop; it prints each failure and returns German texts that
  begin with a cross mark (U+274C, outside the code points modelled) where src/main.py
  returns the texts beginning with \<open>Error:\<close>.
\<close>

section \<open>Batch Orchestrator\<close>

record table =
  columns :: "string list"
  rows :: "pyval list list"

text \<open>
  The table that \<open>pd.read_excel\<close> returns: the column labels, and the rows as the lists
  of their cells in the order of the columns.
\<close>

record result =
  Source :: string
  Object_ID :: string
  Images :: string
  Description :: string

definition norm_label :: "string \<Rightarrow> string" where
  \<comment> \<open>\<open>str(c).strip().lower()\<close>\<close>
  "norm_label c = lower (strip c)"

definition get_val :: "(string \<times> pyval) list \<Rightarrow> string \<Rightarrow> string" where
  \<comment> \<open>a row is the list of its labelled cells\<close>
  "get_val row colname_lower =
     (case map_of row colname_lower of
        Some v \<Rightarrow> safe_value v
      | None \<Rightarrow> ''Empty Cell'')"

definition build_prompt :: "(string \<times> pyval) list \<Rightarrow> string list \<Rightarrow> string \<Rightarrow> prompt" where
  "build_prompt row image_paths object_id =
     (let object_id = strip object_id;
          object_id = (if object_id = [] then ''Empty Cell'' else object_id);
          title = get_val row ''t10'';
          manufacturer = get_val row ''t2'';
          material = get_val row ''t3'';
          dimensions = get_val row ''t5'';
          year = get_val row ''t14'';
          image_list = (if image_paths \<noteq> [] then join '', '' (map basename image_paths)
                        else ''Empty Cell'');
          (de_list_sentence, en_list_sentence) =
             build_list_sentences manufacturer material dimensions year
      in \<lparr>p_object_id = object_id, p_title = title, p_image_list = image_list,
          p_manufacturer = manufacturer, p_material = material,
          p_dimensions = dimensions, p_year = year,
          p_de_list_sentence = de_list_sentence,
          p_en_list_sentence = en_list_sentence\<rparr>)"

definition group_key :: "string list \<Rightarrow> pyval list \<Rightarrow> string option" where
  \<comment> \<open>the key of a row: its cell under the label \<open>t1\<close> when that is a text, no key
      when the cell is missing\<close>
  "group_key cols r =
     (case map_of (zip cols r) ''t1'' of
        Some (PyStr s) \<Rightarrow> Some s
      | _ \<Rightarrow> None)"

definition groupby_t1 ::
  "string list \<Rightarrow> pyval list list \<Rightarrow> pyexn + (string \<times> pyval list list) list" where
  \<comment> \<open>\<open>df.groupby("t1")\<close> of pandas, called as the source calls it, with the defaults
      \<open>sort=True\<close> and \<open>dropna=True\<close>. It raises when no column or more than one column
      has the label. Otherwise iterating it gives one pair of key and group for each
      distinct key, in ascending order of the keys; a group holds the rows of its key in
      the order of the table; rows with a missing key are in no group\<close>
  "groupby_t1 cols rs =
     (if ''t1'' \<notin> set cols then Inl (PyExn ([CHR 0x27] @ ''t1'' @ [CHR 0x27]))
      else if length (filter (\<lambda>c. c = ''t1'') cols) > 1
      then Inl (PyExn (''Grouper for '' @ [CHR 0x27] @ ''t1'' @ [CHR 0x27]
                       @ '' not 1-dimensional''))
      else Inr (map (\<lambda>k. (k, filter (\<lambda>r. group_key cols r = Some k) rs))
                  (sort (remdups (List.map_filter (group_key cols) rs)))))"

text \<open>
  The grouping is that of a key column of texts, whose order is the order of Python on
  \<open>str\<close>; a missing cell is \<open>None\<close> or the float NaN of an empty cell. How pandas orders
  keys that are numbers or dates is not part of this model, and neither is a row that
  holds several cells under one label: what is proved of the grouping below is proved
  for tables with labels that stay distinct when normalised and with texts or missing
  cells in the key column.
\<close>

definition object_body ::
  "world \<Rightarrow> string \<Rightarrow> string \<Rightarrow> string list \<Rightarrow> string \<times> pyval list list \<Rightarrow> state
     \<Rightarrow> (pyexn + result) \<times> state" where
  \<comment> \<open>the statements under \<open>try\<close> for one group: \<open>Inl\<close> the exception that leaves them,
      \<open>Inr\<close> the record they append\<close>
  "object_body w excel_path base_folder cols g st =
     (let object_id = strip (fst g)
      in case find_images_for_object w base_folder object_id MAX_IMAGES of
           Inl e \<Rightarrow> (Inl e, st)
         | Inr image_paths \<Rightarrow>
             if image_paths = []
             then (Inr \<lparr>Source = basename excel_path, Object_ID = object_id,
                        Images = [], Description = ''Error: No valid image found''\<rparr>, st)
             else (case snd g of
                     [] \<Rightarrow> (Inl (PyExn ''single positional indexer is out-of-bounds''), st)
                   | first # _ \<Rightarrow>
                       (let first_row = zip (map norm_label cols) first;
                            prompt = build_prompt first_row image_paths object_id;
                            (r, st) = generate_catalog_text w image_paths prompt st
                        in case r of
                             Inl e \<Rightarrow> (Inl e, st)
                           | Inr catalog_text \<Rightarrow>
                               (Inr \<lparr>Source = basename excel_path, Object_ID = object_id,
                                     Images = join '', '' (map basename image_paths),
                                     Description = catalog_text\<rparr>,
                                st\<lparr>sleeps := sleeps st @ [API_WAIT]\<rparr>))))"

definition process_object ::
  "world \<Rightarrow> string \<Rightarrow> string \<Rightarrow> string list \<Rightarrow> string \<times> pyval list list \<Rightarrow> state
     \<Rightarrow> result \<times> state" where
  \<comment> \<open>one turn of the loop: the statements under \<open>try\<close>, and the handler of
      \<open>except Exception\<close>\<close>
  "process_object w excel_path base_folder cols g st =
     (case object_body w excel_path base_folder cols g st of
        (Inr r, st') \<Rightarrow> (r, st')
      | (Inl e, st') \<Rightarrow>
          (\<lparr>Source = basename excel_path, Object_ID = strip (fst g), Images = [],
            Description = ''Error: Processing error: '' @ exn_str e\<rparr>, st'))"

fun process_groups ::
  "world \<Rightarrow> string \<Rightarrow> string \<Rightarrow> string list \<Rightarrow> int \<Rightarrow> nat
     \<Rightarrow> (string \<times> pyval list list) list \<Rightarrow> state \<Rightarrow> result list \<times> state" where
  \<comment> \<open>the loop over \<open>enumerate(grouped)\<close> from index \<open>i\<close> on: the records appended, in
      order\<close>
  "process_groups w excel_path base_folder cols max_objects i [] st = ([], st)"
| "process_groups w excel_path base_folder cols max_objects i (g # gs) st =
     (if int i \<ge> max_objects then ([], st)
      else (let (r, st) = process_object w excel_path base_folder cols g st;
                (rs, st) = process_groups w excel_path base_folder cols max_objects (i + 1) gs st
            in (r # rs, st)))"

definition process_excel ::
  "world \<Rightarrow> table \<Rightarrow> string \<Rightarrow> string \<Rightarrow> int \<Rightarrow> int \<Rightarrow> int \<Rightarrow> state
     \<Rightarrow> (pyexn + result list) \<times> state" where
  \<comment> \<open>\<open>df\<close> is the table read from \<open>excel_path\<close>\<close>
  "process_excel w df excel_path base_folder row_start_1_based row_end_1_based max_objects st =
     (let cols = map norm_label (columns df);
          body = py_slice (rows df) (row_start_1_based - 1) row_end_1_based
      in if ''t1'' \<notin> set cols
         then (Inl (PyExn (''Error: Expected column '' @ [CHR 0x27] @ ''t1'' @ [CHR 0x27]
                           @ '' not found (after normalization)!'')), st)
         else (case groupby_t1 cols body of
                 Inl e \<Rightarrow> (Inl e, st)
               | Inr grouped \<Rightarrow>
                   (let (results, st) =
                          process_groups w excel_path base_folder cols max_objects 0 grouped st
                    in (Inr results, st))))"

text \<open>
  src/aktuell.py runs the same loop with German texts; where the identifier is empty it
  writes the missing sentinel into the record. The progress bar of src/main.py only
  displays.
\<close>

section \<open>Notions of the claims\<close>

definition rate_limited :: "world \<Rightarrow> nat \<Rightarrow> bool" where
  \<comment> \<open>the request number \<open>n\<close> is answered with status 429\<close>
  "rate_limited w n = (case post w n of HttpError status msg \<Rightarrow> status = 429 | _ \<Rightarrow> False)"

fun text_or_missing :: "pyval \<Rightarrow> bool" where
  \<comment> \<open>a cell of a key column of texts: a text, or missing (\<open>None\<close>, or the float NaN,
      which \<open>str\<close> turns into \<open>nan\<close>)\<close>
  "text_or_missing PyNone = True"
| "text_or_missing (PyStr s) = True"
| "text_or_missing (PyObj x) = (x = Some ''nan'')"

definition first_seen_order :: "'a list \<Rightarrow> 'a list" where
  \<comment> \<open>the order the specification states for the groups: the distinct values, each at
      the place of its first appearance\<close>
  "first_seen_order xs = rev (remdups (rev xs))"

section \<open>Example inputs\<close>

definition start :: state where
  \<comment> \<open>the state before a run: nothing slept, nothing sent\<close>
  "start = \<lparr>sleeps = [], requests = 0\<rparr>"

definition example_world :: world where
  \<comment> \<open>a base folder with the year folder 2019 and its four images, listed out of
      order; every image can be read and every request succeeds\<close>
  "example_world =
     \<lparr>path_exists = (\<lambda>p. p = ''base/2019''),
      listdir = (\<lambda>p. if p = ''base/2019''
                      then Inr [''AK-2019-001_d.jpg'', ''AK-2019-001_b.jpg'',
                                ''AK-2019-001_a.jpg'', ''AK-2019-001_c.jpg'']
                      else Inl (PyExn ''No such file or directory'')),
      encode_image = (\<lambda>p. Inr ''QUJD''),
      post = (\<lambda>n. Success ''Telefon'')\<rparr>"

definition retry_world :: world where
  \<comment> \<open>a service that answers two requests with status 429 and then succeeds\<close>
  "retry_world =
     example_world\<lparr>post := (\<lambda>n. if n < 2 then HttpError 429 ''429 Client Error: Too Many Requests''
                                else Success ''Deutsche Beschreibung'')\<rparr>"

definition busy_world :: world where
  \<comment> \<open>a service that answers every request with status 429\<close>
  "busy_world =
     example_world\<lparr>post := (\<lambda>n. HttpError 429 ''429 Client Error: Too Many Requests'')\<rparr>"

definition broken_world :: world where
  \<comment> \<open>a service that answers one request with status 429 and the next with status 500\<close>
  "broken_world =
     example_world\<lparr>post := (\<lambda>n. if n < 1 then HttpError 429 ''429 Client Error: Too Many Requests''
                                else HttpError 500 ''500 Server Error: Internal Server Error'')\<rparr>"

definition faulty_world :: world where
  \<comment> \<open>one image for each of the three objects; the image of the second cannot be read\<close>
  "faulty_world =
     \<lparr>path_exists = (\<lambda>p. p = ''base/2019''),
      listdir = (\<lambda>p. if p = ''base/2019''
                      then Inr [''AK-2019-003_a.jpg'', ''AK-2019-001_a.jpg'',
                                ''AK-2019-002_a.jpg'']
                      else Inl (PyExn ''No such file or directory'')),
      encode_image = (\<lambda>p. if p = ''base/2019/AK-2019-002_a.jpg''
                           then Inl (PyExn ''Permission denied'')
                           else Inr ''QUJD''),
      post = (\<lambda>n. if n = 0 then Success ''Ein Telefon'' else Success ''Eine Lampe'')\<rparr>"

definition unsorted_table :: table where
  \<comment> \<open>two objects, the later identifier first\<close>
  "unsorted_table =
     \<lparr>columns = [''T1'', ''T10''],
      rows = [[PyStr ''B/2020/1'', PyStr ''Radio''],
              [PyStr ''A/2020/1'', PyStr ''Telefon'']]\<rparr>"

definition twice_table :: table where
  \<comment> \<open>two labels that are both \<open>t1\<close> when normalised\<close>
  "twice_table =
     \<lparr>columns = [''T1'', ''t1 ''],
      rows = [[PyStr ''B/2020/1'', PyStr ''A/2020/1'']]\<rparr>"

definition three_table :: table where
  \<comment> \<open>three objects of the year 2019\<close>
  "three_table =
     \<lparr>columns = [''T1'', ''T10''],
      rows = [[PyStr ''AK/2019/001'', PyStr ''Telefon''],
              [PyStr ''AK/2019/002'', PyStr ''Radio''],
              [PyStr ''AK/2019/003'', PyStr ''Lampe'']]\<rparr>"

section \<open>Facts about the string functions\<close>

lemma strip_append:
  "dropWhile isspace t = strip t @ rev (takeWhile isspace (rev (dropWhile isspace t)))"
proof -
  let ?u = "dropWhile isspace t"
  have "strip t @ rev (takeWhile isspace (rev ?u))
        = rev (takeWhile isspace (rev ?u) @ dropWhile isspace (rev ?u))"
    unfolding strip_def by (simp only: rev_append)
  also have "\<dots> = ?u"
    by (simp only: takeWhile_dropWhile_id rev_rev_ident)
  finally show ?thesis by simp
qed

lemma strip_decomp:
  "\<exists>a b. t = a @ strip t @ b \<and> list_all isspace a \<and> list_all isspace b"
proof -
  let ?u = "dropWhile isspace t"
  let ?a = "takeWhile isspace t"
  let ?b = "rev (takeWhile isspace (rev ?u))"
  have "t = ?a @ ?u" by simp
  also have "?u = strip t @ ?b" by (rule strip_append)
  finally have 1: "t = ?a @ strip t @ ?b" .
  have 3: "list_all isspace ?a"
    by (auto simp: list_all_iff dest: set_takeWhileD)
  have 4: "list_all isspace ?b"
    by (auto simp: list_all_iff dest: set_takeWhileD)
  from 1 3 4 show ?thesis by blast
qed

lemma strip_ends:
  assumes "strip t \<noteq> []"
  shows "\<not> isspace (hd (strip t))" and "\<not> isspace (last (strip t))"
proof -
  let ?u = "dropWhile isspace t"
  let ?v = "dropWhile isspace (rev ?u)"
  from assms have v: "?v \<noteq> []" by (simp add: strip_def)
  have u: "?u \<noteq> []"
  proof
    assume "?u = []"
    then have "strip t = []" unfolding strip_def by (simp only: rev.simps dropWhile.simps)
    with assms show False by simp
  qed
  have "\<not> isspace (hd ?v)" using v by (rule hd_dropWhile)
  then show "\<not> isspace (last (strip t))" using v by (simp add: strip_def last_rev)
  have "hd ?u = hd (strip t)" using assms strip_append [of t] by (metis hd_append2)
  moreover have "\<not> isspace (hd ?u)" using u by (rule hd_dropWhile)
  ultimately show "\<not> isspace (hd (strip t))" by simp
qed

lemma strip_Nil_iff: "strip t = [] \<longleftrightarrow> list_all isspace t"
proof
  assume "strip t = []"
  with strip_decomp [of t] show "list_all isspace t" by auto
next
  assume "list_all isspace t"
  then have "dropWhile isspace t = []" by (simp only: dropWhile_eq_Nil_conv list_all_iff)
  then show "strip t = []" unfolding strip_def by (simp only: rev.simps dropWhile.simps)
qed

lemma dropWhile_hd: "\<not> P (hd s) \<Longrightarrow> dropWhile P s = s"
  by (cases s) simp_all

lemma strip_fixed:
  assumes "s = [] \<or> (\<not> isspace (hd s) \<and> \<not> isspace (last s))"
  shows "strip s = s"
proof (cases s rule: rev_cases)
  case Nil then show ?thesis by (simp add: strip_def)
next
  case (snoc cs c)
  with assms have h: "\<not> isspace (hd s)" and l: "\<not> isspace c" by auto
  from h have 1: "dropWhile isspace s = s" by (rule dropWhile_hd)
  from l have 2: "dropWhile isspace (rev s) = rev s" unfolding snoc by simp
  show ?thesis by (simp add: strip_def 1 2)
qed

lemma strip_idem: "strip (strip t) = strip t"
  using strip_fixed [of "strip t"] strip_ends [of t] by blast

lemma c110: "(of_char (CHR ''n'') :: nat) = 110" by simp
lemma c78: "(of_char (CHR ''N'') :: nat) = 78" by simp

lemma of_char_lower_char:
  "(of_char (lower_char c) :: nat) =
     (if (65 \<le> (of_char c :: nat) \<and> (of_char c :: nat) \<le> 90)
         \<or> (192 \<le> (of_char c :: nat) \<and> (of_char c :: nat) \<le> 222 \<and> (of_char c :: nat) \<noteq> 215)
      then of_char c + 32 else of_char c)"
  unfolding lower_char_def Let_def
  apply (simp only: if_distrib [of of_char] of_char_of)
  apply (rule if_cong [OF refl _ refl])
  apply (rule mod_less)
  apply linarith
  done

lemma lower_char_n: "lower_char c = CHR ''n'' \<longleftrightarrow> c = CHR ''n'' \<or> c = CHR ''N''"
proof -
  have "lower_char c = CHR ''n'' \<longleftrightarrow> (of_char (lower_char c) :: nat) = of_char (CHR ''n'')"
    by (simp only: of_char_eq_iff)
  also have "\<dots> \<longleftrightarrow> (of_char c :: nat) = 110 \<or> (of_char c :: nat) = 78"
    unfolding of_char_lower_char c110 by presburger
  also have "\<dots> \<longleftrightarrow> (of_char c :: nat) = of_char (CHR ''n'') \<or> (of_char c :: nat) = of_char (CHR ''N'')"
    by (simp only: c110 c78)
  also have "\<dots> \<longleftrightarrow> c = CHR ''n'' \<or> c = CHR ''N''"
    by (simp only: of_char_eq_iff)
  finally show ?thesis .
qed

lemma c97: "(of_char (CHR ''a'') :: nat) = 97" by simp
lemma c65: "(of_char (CHR ''A'') :: nat) = 65" by simp

lemma lower_char_a: "lower_char c = CHR ''a'' \<longleftrightarrow> c = CHR ''a'' \<or> c = CHR ''A''"
proof -
  have "lower_char c = CHR ''a'' \<longleftrightarrow> (of_char (lower_char c) :: nat) = of_char (CHR ''a'')"
    by (simp only: of_char_eq_iff)
  also have "\<dots> \<longleftrightarrow> (of_char c :: nat) = 97 \<or> (of_char c :: nat) = 65"
    unfolding of_char_lower_char c97 by presburger
  also have "\<dots> \<longleftrightarrow> (of_char c :: nat) = of_char (CHR ''a'') \<or> (of_char c :: nat) = of_char (CHR ''A'')"
    by (simp only: c97 c65)
  also have "\<dots> \<longleftrightarrow> c = CHR ''a'' \<or> c = CHR ''A''"
    by (simp only: of_char_eq_iff)
  finally show ?thesis .
qed

lemma lower_nan_iff:
  "lower s = ''nan'' \<longleftrightarrow>
     s \<in> set [''nan'', ''naN'', ''nAn'', ''nAN'', ''Nan'', ''NaN'', ''NAn'', ''NAN'']"
proof -
  have "lower s = ''nan'' \<longleftrightarrow>
          (\<exists>c1 c2 c3. s = [c1, c2, c3] \<and> lower_char c1 = CHR ''n''
             \<and> lower_char c2 = CHR ''a'' \<and> lower_char c3 = CHR ''n'')"
    unfolding lower_def by (auto simp: map_eq_Cons_conv)
  also have "\<dots> \<longleftrightarrow>
     s \<in> set [''nan'', ''naN'', ''nAn'', ''nAN'', ''Nan'', ''NaN'', ''NAn'', ''NAN'']"
    unfolding lower_char_n lower_char_a by auto
  finally show ?thesis .
qed

section \<open>Facts sentences: the clauses\<close>

text \<open>
  Claim C4. Each facts sentence is the list of the labelled clauses of the fields
  manufacturer, material, dimensions, year, in this order, without the fields equal to
  the missing sentinel, joined with a semicolon and a space. Acme, missing, 10x20cm,
  missing gives the two sentences of the specification, and four missing fields give two
  empty sentences, in src/main.py and in src/aktuell.py.
\<close>

theorem build_list_sentences_clauses:
  "build_list_sentences_with sentinel manufacturer material dimensions year =
     (join ''; '' (map (\<lambda>(label, v). label @ '': '' @ v)
        (filter (\<lambda>(label, v). v \<noteq> sentinel)
           [(''Hersteller'', manufacturer), (''Material'', material),
            (''Ma'' @ [CHR 0xDF] @ ''e'', dimensions), (''Jahr'', year)])),
      join ''; '' (map (\<lambda>(label, v). label @ '': '' @ v)
        (filter (\<lambda>(label, v). v \<noteq> sentinel)
           [(''Manufacturer'', manufacturer), (''Material'', material),
            (''Dimensions'', dimensions), (''Year'', year)])))
   \<and> build_list_sentences ''Acme'' ''Empty Cell'' ''10x20cm'' ''Empty Cell'' =
       (''Hersteller: Acme; Ma'' @ [CHR 0xDF] @ ''e: 10x20cm'',
        ''Manufacturer: Acme; Dimensions: 10x20cm'')
   \<and> build_list_sentences_de ''Acme'' ''Leere Zelle'' ''10x20cm'' ''Leere Zelle'' =
       (''Hersteller: Acme; Ma'' @ [CHR 0xDF] @ ''e: 10x20cm'',
        ''Manufacturer: Acme; Dimensions: 10x20cm'')
   \<and> build_list_sentences ''Empty Cell'' ''Empty Cell'' ''Empty Cell'' ''Empty Cell'' = ([], [])
   \<and> build_list_sentences_de ''Leere Zelle'' ''Leere Zelle'' ''Leere Zelle'' ''Leere Zelle'' = ([], [])"
  by (simp add: build_list_sentences_def build_list_sentences_de_def build_list_sentences_with_def)

section \<open>Value Normalizer: contract and idempotence\<close>

lemma safe_value_with_text:
  "val \<noteq> PyNone \<Longrightarrow> py_str val = Some t \<Longrightarrow>
   safe_value_with sentinel val =
     (if list_all isspace t \<or> lower (strip t) = ''nan'' then sentinel else strip t)"
  by (simp add: safe_value_with_def strip_Nil_iff)

text \<open>
  Claim C5. \<open>safe_value\<close> returns the missing sentinel for \<open>None\<close>, for a value whose
  \<open>str\<close> raises, for a text that is empty or whitespace only, and for a text that is one of
  the eight spellings of nan once trimmed; for every other value it returns the trimmed
  text. Trimming removes a whitespace prefix and a whitespace suffix and leaves a text
  that neither begins nor ends with whitespace. The function is total: no exception
  leaves it.
\<close>

theorem safe_value_contract:
  "(val = PyNone \<or> py_str val = None \<longrightarrow> safe_value_with sentinel val = sentinel) \<and>
   (\<forall>t. val \<noteq> PyNone \<and> py_str val = Some t \<longrightarrow>
      safe_value_with sentinel val =
        (if list_all isspace t
            \<or> strip t \<in> set [''nan'', ''naN'', ''nAn'', ''nAN'', ''Nan'', ''NaN'', ''NAn'', ''NAN'']
         then sentinel else strip t)) \<and>
   (\<forall>t. \<exists>a b. t = a @ strip t @ b \<and> list_all isspace a \<and> list_all isspace b \<and>
      (strip t = [] \<or> \<not> (isspace (hd (strip t)) \<or> isspace (last (strip t)))))"
proof (intro conjI allI impI)
  assume "val = PyNone \<or> py_str val = None"
  then show "safe_value_with sentinel val = sentinel"
    by (auto simp: safe_value_with_def)
next
  fix t assume "val \<noteq> PyNone \<and> py_str val = Some t"
  then have "safe_value_with sentinel val =
        (if list_all isspace t \<or> lower (strip t) = ''nan'' then sentinel else strip t)"
    by (intro safe_value_with_text) simp_all
  then show "safe_value_with sentinel val =
        (if list_all isspace t
            \<or> strip t \<in> set [''nan'', ''naN'', ''nAn'', ''nAN'', ''Nan'', ''NaN'', ''NAn'', ''NAN'']
         then sentinel else strip t)"
    unfolding lower_nan_iff .
next
  fix t
  from strip_decomp [of t] obtain a b
    where "t = a @ strip t @ b" "list_all isspace a" "list_all isspace b" by blast
  moreover have "strip t = [] \<or> \<not> (isspace (hd (strip t)) \<or> isspace (last (strip t)))"
    using strip_ends [of t] by blast
  ultimately show "\<exists>a b. t = a @ strip t @ b \<and> list_all isspace a \<and> list_all isspace b \<and>
      (strip t = [] \<or> \<not> (isspace (hd (strip t)) \<or> isspace (last (strip t))))"
    by blast
qed

text \<open>
  The contract at six cell values.
\<close>

theorem safe_value_contract_witness:
  "safe_value PyNone = ''Empty Cell''
   \<and> safe_value (PyObj None) = ''Empty Cell''
   \<and> safe_value (PyStr ''   '') = ''Empty Cell''
   \<and> safe_value (PyObj (Some ''nan'')) = ''Empty Cell''
   \<and> safe_value_de (PyStr '' NaN '') = ''Leere Zelle''
   \<and> safe_value (PyStr ''  AEG Berlin '') = ''AEG Berlin''"
  using safe_value_contract [of PyNone "''Empty Cell''"]
    safe_value_contract [of "PyObj None" "''Empty Cell''"]
    safe_value_contract [of "PyStr ''   ''" "''Empty Cell''"]
    safe_value_contract [of "PyObj (Some ''nan'')" "''Empty Cell''"]
    safe_value_contract [of "PyStr '' NaN ''" "''Leere Zelle''"]
    safe_value_contract [of "PyStr ''  AEG Berlin ''" "''Empty Cell''"]
  by (simp add: safe_value_def safe_value_de_def strip_def isspace_def)

lemma safe_value_with_idem:
  assumes "strip sentinel = sentinel"
  shows "safe_value_with sentinel (PyStr (safe_value_with sentinel val)) = safe_value_with sentinel val"
proof (cases "val = PyNone \<or> py_str val = None")
  case True
  then have "safe_value_with sentinel val = sentinel" by (auto simp: safe_value_with_def)
  then show ?thesis using assms by (simp add: safe_value_with_def)
next
  case False
  then obtain t where t: "val \<noteq> PyNone" "py_str val = Some t" by auto
  show ?thesis
  proof (cases "strip t = [] \<or> lower (strip t) = ''nan''")
    case True
    with t have "safe_value_with sentinel val = sentinel" by (auto simp: safe_value_with_def)
    then show ?thesis using assms by (simp add: safe_value_with_def)
  next
    case False
    with t have "safe_value_with sentinel val = strip t" by (auto simp: safe_value_with_def)
    then show ?thesis using False by (simp add: safe_value_with_def strip_idem)
  qed
qed

lemma sentinels_trimmed:
  "strip ''Empty Cell'' = ''Empty Cell''" "strip ''Leere Zelle'' = ''Leere Zelle''"
  by (simp_all add: strip_def isspace_def)

text \<open>
  Claim C9. Normalising a normalised value changes nothing, for both sentinels; the
  sentinel itself and every trimmed, non-empty text that is not nan are returned as they
  are.
\<close>

theorem safe_value_idempotent:
  "safe_value (PyStr (safe_value val)) = safe_value val
   \<and> safe_value_de (PyStr (safe_value_de val)) = safe_value_de val
   \<and> safe_value (PyStr ''Empty Cell'') = ''Empty Cell''
   \<and> safe_value_de (PyStr ''Leere Zelle'') = ''Leere Zelle''
   \<and> (\<forall>s. strip s = s \<and> s \<noteq> [] \<and> lower s \<noteq> ''nan''
         \<longrightarrow> safe_value (PyStr s) = s \<and> safe_value_de (PyStr s) = s)"
  by (simp add: safe_value_def safe_value_de_def safe_value_with_idem sentinels_trimmed)
    (simp add: safe_value_with_def sentinels_trimmed lower_nan_iff)

text \<open>
  Idempotence at a padded text.
\<close>

theorem safe_value_idempotent_witness:
  "safe_value (PyStr (safe_value (PyStr ''  AEG Berlin ''))) = ''AEG Berlin''
   \<and> safe_value (PyStr ''AEG Berlin'') = ''AEG Berlin''
   \<and> safe_value_de (PyStr ''AEG Berlin'') = ''AEG Berlin''"
  using safe_value_idempotent [of "PyStr ''  AEG Berlin ''"]
  by (simp add: safe_value_def safe_value_with_def strip_def isspace_def lower_nan_iff)

section \<open>Image Locator: results\<close>

lemma py_slice_take_drop: "\<exists>i j. py_slice xs a b = take i (drop j xs)"
proof (cases "py_slice xs a b = []")
  case True
  then have "py_slice xs a b = take 0 (drop 0 xs)" by simp
  then show ?thesis by blast
next
  case False
  then show ?thesis unfolding py_slice_def Let_def by (metis (full_types))
qed

lemma py_slice_0: "0 \<le> m \<Longrightarrow> py_slice xs 0 m = take (nat m) xs"
  by (auto simp: py_slice_def Let_def min_def)

lemma sorted_py_slice: "sorted xs \<Longrightarrow> sorted (py_slice xs a b)"
proof -
  assume s: "sorted xs"
  obtain i j where "py_slice xs a b = take i (drop j xs)"
    using py_slice_take_drop by blast
  with s show ?thesis by (simp add: sorted_wrt_take sorted_wrt_drop)
qed

lemma find_first:
  "\<forall>p\<in>set ps. \<not> P p \<Longrightarrow> P y \<Longrightarrow> List.find P (ps @ y # qs) = Some y"
  by (induction ps) simp_all

lemma find_Some_holds: "List.find P xs = Some y \<Longrightarrow> P y \<and> y \<in> set xs"
  by (induction xs) (auto split: if_splits)

text \<open>
  Claim C7. When no piece of the identifier between slashes is four digits long, or the
  first such piece names a folder under the base folder that does not exist, the result is
  the empty list; the function returns, it does not raise.
\<close>

theorem find_images_empty_cases:
  assumes "(\<forall>p\<in>set (split_sep CHR ''/'' object_id). \<not> (length p = 4 \<and> isdigit p))
           \<or> (\<exists>ps year qs. split_sep CHR ''/'' object_id = ps @ year # qs
                 \<and> (\<forall>p\<in>set ps. \<not> (length p = 4 \<and> isdigit p))
                 \<and> length year = 4 \<and> isdigit year
                 \<and> \<not> path_exists w (path_join base_folder year))"
  shows "find_images_for_object w base_folder object_id max_images = Inr []"
  using assms
proof
  assume "\<forall>p\<in>set (split_sep CHR ''/'' object_id). \<not> (length p = 4 \<and> isdigit p)"
  then have "List.find is_year (split_sep CHR ''/'' object_id) = None"
    by (auto simp: find_None_iff is_year_def)
  then show ?thesis by (simp add: find_images_for_object_def)
next
  assume "\<exists>ps year qs. split_sep CHR ''/'' object_id = ps @ year # qs
                 \<and> (\<forall>p\<in>set ps. \<not> (length p = 4 \<and> isdigit p))
                 \<and> length year = 4 \<and> isdigit year
                 \<and> \<not> path_exists w (path_join base_folder year)"
  then obtain ps year qs where sp: "split_sep CHR ''/'' object_id = ps @ year # qs"
    and no: "\<forall>p\<in>set ps. \<not> is_year p" and y: "is_year year"
    and ex: "\<not> path_exists w (path_join base_folder year)"
    by (auto simp: is_year_def)
  from no y have "List.find is_year (ps @ year # qs) = Some year" by (rule find_first)
  with sp ex show ?thesis by (simp add: find_images_for_object_def)
qed

text \<open>
  Both cases in the example world: no year in the identifier, and no folder 2020.
\<close>

theorem find_images_empty_cases_witness:
  "find_images_for_object example_world ''base'' ''AK/2019-001'' 3 = Inr []
   \<and> find_images_for_object example_world ''base'' ''AK/2020/001'' 3 = Inr []"
proof -
  have 1: "(\<forall>p\<in>set (split_sep CHR ''/'' ''AK/2019-001''). \<not> (length p = 4 \<and> isdigit p))
           \<or> (\<exists>ps year qs. split_sep CHR ''/'' ''AK/2019-001'' = ps @ year # qs
                 \<and> (\<forall>p\<in>set ps. \<not> (length p = 4 \<and> isdigit p))
                 \<and> length year = 4 \<and> isdigit year
                 \<and> \<not> path_exists example_world (path_join ''base'' year))"
    by simp
  have "split_sep CHR ''/'' ''AK/2020/001'' = [''AK''] @ ''2020'' # [''001'']
        \<and> (\<forall>p\<in>set [''AK'']. \<not> (length p = 4 \<and> isdigit p))
        \<and> length ''2020'' = 4 \<and> isdigit ''2020''
        \<and> \<not> path_exists example_world (path_join ''base'' ''2020'')"
    by (simp add: isdigit_def isdigit_char_def example_world_def path_join_def
        startswith_def endswith_def)
  then have 2: "(\<forall>p\<in>set (split_sep CHR ''/'' ''AK/2020/001''). \<not> (length p = 4 \<and> isdigit p))
           \<or> (\<exists>ps year qs. split_sep CHR ''/'' ''AK/2020/001'' = ps @ year # qs
                 \<and> (\<forall>p\<in>set ps. \<not> (length p = 4 \<and> isdigit p))
                 \<and> length year = 4 \<and> isdigit year
                 \<and> \<not> path_exists example_world (path_join ''base'' year))"
    by blast
  from find_images_empty_cases [OF 1] find_images_empty_cases [OF 2]
  show ?thesis by simp
qed

lemma find_images_Inr:
  assumes "find_images_for_object w base_folder object_id max_images = Inr paths"
      and "paths \<noteq> []"
  shows "\<exists>year prefix rest entries.
           List.find is_year (split_sep CHR ''/'' object_id) = Some year
         \<and> split_ws (replace_char CHR ''/'' CHR ''-'' object_id) = prefix # rest
         \<and> listdir w (path_join base_folder year) = Inr entries
         \<and> paths = map (path_join (path_join base_folder year))
              (py_slice (sort (filter (\<lambda>f. startswith f prefix)
                 (filter (\<lambda>f. endswith_any (lower f) [''.jpg'', ''.jpeg'', ''.png'']) entries)))
                 0 max_images)"
  using assms unfolding find_images_for_object_def Let_def
  by (auto split: option.splits if_splits list.splits sum.splits)

lemma set_py_slice: "set (py_slice xs a b) \<subseteq> set xs"
proof -
  obtain i j where "py_slice xs a b = take i (drop j xs)"
    using py_slice_take_drop by blast
  then show ?thesis
    by (metis set_take_subset set_drop_subset subset_trans)
qed

lemma take_sort_least:
  assumes "f \<in> set xs" and "f \<notin> set (take n (sort xs))"
  shows "length (take n (sort xs)) = n \<and> (\<forall>m\<in>set (take n (sort xs)). m \<le> f)"
proof -
  let ?ys = "sort xs"
  have "f \<in> set (take n ?ys @ drop n ?ys)" using assms(1) by simp
  then have d: "f \<in> set (drop n ?ys)" using assms(2) by (simp only: set_append Un_iff) blast
  then have "n < length ?ys" by (cases "n < length ?ys") auto
  then have l: "length (take n ?ys) = n" by simp
  have "sorted (take n ?ys @ drop n ?ys)" by simp
  then have "\<forall>x\<in>set (take n ?ys). \<forall>y\<in>set (drop n ?ys). x \<le> y"
    by (simp only: sorted_append) blast
  with d l show ?thesis by blast
qed

text \<open>
  Claim C8. A list that \<open>find_images_for_object\<close> returns has at most \<open>max_images\<close>
  paths when that is not negative, so at most 3 with the configured maximum; all paths
  are file names joined to one folder, the base folder joined with the year of the
  identifier; the file names are in ascending order. They are cut from the sorted list
  of all matches, the entries of that folder that end like an image and start with the
  prefix of the identifier: the matches are sorted first and the first \<open>max_images\<close> of
  the sorted list are returned. So every returned name is a match, and a match that is
  not returned comes after every returned name, the list then being full.
\<close>

theorem image_set_invariant:
  assumes "find_images_for_object w base_folder object_id max_images = Inr paths"
  shows "(0 \<le> max_images \<longrightarrow> int (length paths) \<le> max_images)
       \<and> (max_images = MAX_IMAGES \<longrightarrow> length paths \<le> 3)
       \<and> (\<exists>folder names.
             paths = map (path_join folder) names \<and> sorted names
           \<and> (paths \<noteq> [] \<longrightarrow>
                (\<exists>year prefix rest entries.
                    List.find is_year (split_sep CHR ''/'' object_id) = Some year
                  \<and> year \<in> set (split_sep CHR ''/'' object_id)
                  \<and> length year = 4 \<and> isdigit year
                  \<and> folder = path_join base_folder year
                  \<and> listdir w folder = Inr entries
                  \<and> split_ws (replace_char CHR ''/'' CHR ''-'' object_id) = prefix # rest
                  \<and> names =
                      py_slice
                        (sort (filter (\<lambda>f. endswith_any (lower f) [''.jpg'', ''.jpeg'', ''.png'']
                                           \<and> startswith f prefix) entries))
                        0 max_images
                  \<and> (0 \<le> max_images \<longrightarrow>
                      names =
                        take (nat max_images)
                          (sort (filter (\<lambda>f. endswith_any (lower f) [''.jpg'', ''.jpeg'', ''.png'']
                                             \<and> startswith f prefix) entries)))
                  \<and> (\<forall>n\<in>set names.
                        n \<in> set entries
                      \<and> endswith_any (lower n) [''.jpg'', ''.jpeg'', ''.png'']
                      \<and> startswith n prefix)
                  \<and> (0 \<le> max_images \<longrightarrow>
                      (\<forall>f\<in>set entries.
                          endswith_any (lower f) [''.jpg'', ''.jpeg'', ''.png'']
                        \<and> startswith f prefix \<and> f \<notin> set names \<longrightarrow>
                          length names = nat max_images \<and> (\<forall>n\<in>set names. n \<le> f))))))"
proof (cases "paths = []")
  case True
  have "paths = map (path_join []) [] \<and> sorted ([] :: string list)" using True by simp
  with True show ?thesis by auto
next
  case False
  from find_images_Inr [OF assms False] obtain year prefix rest entries where
    y: "List.find is_year (split_sep CHR ''/'' object_id) = Some year"
    and sp: "split_ws (replace_char CHR ''/'' CHR ''-'' object_id) = prefix # rest"
    and l: "listdir w (path_join base_folder year) = Inr entries"
    and p: "paths = map (path_join (path_join base_folder year))
              (py_slice (sort (filter (\<lambda>f. startswith f prefix)
                 (filter (\<lambda>f. endswith_any (lower f) [''.jpg'', ''.jpeg'', ''.png'']) entries)))
                 0 max_images)"
    by blast
  let ?M = "\<lambda>f. endswith_any (lower f) [''.jpg'', ''.jpeg'', ''.png''] \<and> startswith f prefix"
  let ?matches = "filter ?M entries"
  let ?names = "py_slice (sort ?matches) 0 max_images"
  let ?folder = "path_join base_folder year"
  have m: "filter (\<lambda>f. startswith f prefix)
             (filter (\<lambda>f. endswith_any (lower f) [''.jpg'', ''.jpeg'', ''.png'']) entries)
           = ?matches"
    by (simp add: conj_commute)
  have p': "paths = map (path_join ?folder) ?names" using p unfolding m .
  have sn: "sorted ?names" by (rule sorted_py_slice) simp
  have tk: "0 \<le> max_images \<longrightarrow> ?names = take (nat max_images) (sort ?matches)"
    by (simp add: py_slice_0)
  have len: "0 \<le> max_images \<longrightarrow> int (length paths) \<le> max_images"
    unfolding p' using tk by auto
  then have len3: "max_images = MAX_IMAGES \<longrightarrow> length paths \<le> 3"
    by (auto simp: MAX_IMAGES_def)
  have yy: "is_year year \<and> year \<in> set (split_sep CHR ''/'' object_id)"
    using y by (rule find_Some_holds)
  then have y4: "length year = 4 \<and> isdigit year" by (simp add: is_year_def)
  have "set ?names \<subseteq> set (sort ?matches)" by (rule set_py_slice)
  then have mem: "\<forall>n\<in>set ?names. n \<in> set entries \<and> ?M n" by auto
  have least: "0 \<le> max_images \<longrightarrow>
                 (\<forall>f\<in>set entries.
                     endswith_any (lower f) [''.jpg'', ''.jpeg'', ''.png'']
                   \<and> startswith f prefix \<and> f \<notin> set ?names \<longrightarrow>
                    length ?names = nat max_images \<and> (\<forall>n\<in>set ?names. n \<le> f))"
  proof (intro impI ballI)
    fix f
    assume 0: "0 \<le> max_images" and f: "f \<in> set entries"
      and h: "endswith_any (lower f) [''.jpg'', ''.jpeg'', ''.png'']
                \<and> startswith f prefix \<and> f \<notin> set ?names"
    from 0 tk have e: "?names = take (nat max_images) (sort ?matches)" by blast
    from f h have 1: "f \<in> set ?matches" by simp
    from h have 2: "f \<notin> set (take (nat max_images) (sort ?matches))" unfolding e by blast
    from take_sort_least [OF 1 2]
    show "length ?names = nat max_images \<and> (\<forall>n\<in>set ?names. n \<le> f)" unfolding e .
  qed
  have inner: "\<exists>year' prefix' rest' entries'.
                    List.find is_year (split_sep CHR ''/'' object_id) = Some year'
                  \<and> year' \<in> set (split_sep CHR ''/'' object_id)
                  \<and> length year' = 4 \<and> isdigit year'
                  \<and> ?folder = path_join base_folder year'
                  \<and> listdir w ?folder = Inr entries'
                  \<and> split_ws (replace_char CHR ''/'' CHR ''-'' object_id) = prefix' # rest'
                  \<and> ?names =
                      py_slice
                        (sort (filter (\<lambda>f. endswith_any (lower f) [''.jpg'', ''.jpeg'', ''.png'']
                                           \<and> startswith f prefix') entries'))
                        0 max_images
                  \<and> (0 \<le> max_images \<longrightarrow>
                      ?names =
                        take (nat max_images)
                          (sort (filter (\<lambda>f. endswith_any (lower f) [''.jpg'', ''.jpeg'', ''.png'']
                                             \<and> startswith f prefix') entries')))
                  \<and> (\<forall>n\<in>set ?names.
                        n \<in> set entries'
                      \<and> endswith_any (lower n) [''.jpg'', ''.jpeg'', ''.png'']
                      \<and> startswith n prefix')
                  \<and> (0 \<le> max_images \<longrightarrow>
                      (\<forall>f\<in>set entries'.
                          endswith_any (lower f) [''.jpg'', ''.jpeg'', ''.png'']
                        \<and> startswith f prefix' \<and> f \<notin> set ?names \<longrightarrow>
                          length ?names = nat max_images \<and> (\<forall>n\<in>set ?names. n \<le> f)))"
    apply (rule exI [of _ year])
    apply (rule exI [of _ prefix])
    apply (rule exI [of _ rest])
    apply (rule exI [of _ entries])
    apply (intro conjI)
              apply (rule y)
             apply (rule yy [THEN conjunct2])
            apply (rule y4 [THEN conjunct1])
           apply (rule y4 [THEN conjunct2])
          apply (rule refl)
         apply (rule l)
        apply (rule sp)
       apply (rule refl)
      apply (rule tk)
     apply (rule mem)
    apply (rule least)
    done
  have "\<exists>folder names.
             paths = map (path_join folder) names \<and> sorted names
           \<and> (paths \<noteq> [] \<longrightarrow>
                (\<exists>year prefix rest entries.
                    List.find is_year (split_sep CHR ''/'' object_id) = Some year
                  \<and> year \<in> set (split_sep CHR ''/'' object_id)
                  \<and> length year = 4 \<and> isdigit year
                  \<and> folder = path_join base_folder year
                  \<and> listdir w folder = Inr entries
                  \<and> split_ws (replace_char CHR ''/'' CHR ''-'' object_id) = prefix # rest
                  \<and> names =
                      py_slice
                        (sort (filter (\<lambda>f. endswith_any (lower f) [''.jpg'', ''.jpeg'', ''.png'']
                                           \<and> startswith f prefix) entries))
                        0 max_images
                  \<and> (0 \<le> max_images \<longrightarrow>
                      names =
                        take (nat max_images)
                          (sort (filter (\<lambda>f. endswith_any (lower f) [''.jpg'', ''.jpeg'', ''.png'']
                                             \<and> startswith f prefix) entries)))
                  \<and> (\<forall>n\<in>set names.
                        n \<in> set entries
                      \<and> endswith_any (lower n) [''.jpg'', ''.jpeg'', ''.png'']
                      \<and> startswith n prefix)
                  \<and> (0 \<le> max_images \<longrightarrow>
                      (\<forall>f\<in>set entries.
                          endswith_any (lower f) [''.jpg'', ''.jpeg'', ''.png'']
                        \<and> startswith f prefix \<and> f \<notin> set names \<longrightarrow>
                          length names = nat max_images \<and> (\<forall>n\<in>set names. n \<le> f)))))"
    apply (rule exI [of _ ?folder])
    apply (rule exI [of _ ?names])
    apply (intro conjI impI)
      apply (rule p')
     apply (rule sn)
    apply (rule inner)
    done
  with len len3 show ?thesis by (intro conjI)
qed

lemma example_eval:
  "find_images_for_object example_world ''base'' ''AK/2019/001'' 3 =
     Inr [''base/2019/AK-2019-001_a.jpg'', ''base/2019/AK-2019-001_b.jpg'',
          ''base/2019/AK-2019-001_c.jpg'']"
  by code_simp

text \<open>
  The invariant on the example folder, which holds four matching files, listed in the
  order d, b, a, c.
\<close>

theorem image_set_invariant_witness:
  "find_images_for_object example_world ''base'' ''AK/2019/001'' MAX_IMAGES =
     Inr [''base/2019/AK-2019-001_a.jpg'', ''base/2019/AK-2019-001_b.jpg'',
          ''base/2019/AK-2019-001_c.jpg'']
   \<and> length [''base/2019/AK-2019-001_a.jpg'', ''base/2019/AK-2019-001_b.jpg'',
          ''base/2019/AK-2019-001_c.jpg''] \<le> 3
   \<and> (\<exists>folder names.
         [''base/2019/AK-2019-001_a.jpg'', ''base/2019/AK-2019-001_b.jpg'',
          ''base/2019/AK-2019-001_c.jpg''] = map (path_join folder) names
         \<and> sorted names)"
proof -
  have e: "find_images_for_object example_world ''base'' ''AK/2019/001'' MAX_IMAGES =
     Inr [''base/2019/AK-2019-001_a.jpg'', ''base/2019/AK-2019-001_b.jpg'',
          ''base/2019/AK-2019-001_c.jpg'']"
    unfolding MAX_IMAGES_def by (rule example_eval)
  note t = image_set_invariant [OF e]
  from t have a: "length [''base/2019/AK-2019-001_a.jpg'', ''base/2019/AK-2019-001_b.jpg'',
          ''base/2019/AK-2019-001_c.jpg''] \<le> 3" by simp
  from t have b: "\<exists>folder names.
         [''base/2019/AK-2019-001_a.jpg'', ''base/2019/AK-2019-001_b.jpg'',
          ''base/2019/AK-2019-001_c.jpg''] = map (path_join folder) names
         \<and> sorted names"
    by (elim conjE exE, intro exI conjI) assumption+
  from e a b show ?thesis by (intro conjI)
qed

text \<open>
  Claim C1 as stated fails: the identifier AK/2019-001 splits at its one slash into AK
  and 2019-001, neither of which is four digits, so no year is found and the result is
  empty although the folder 2019 holds the four files.
\<close>

theorem find_images_example_counterexample:
  "find_images_for_object example_world ''base'' ''AK/2019-001'' 3 = Inr []
   \<and> find_images_for_object example_world ''base'' ''AK/2019-001'' 3 \<noteq>
     Inr [''base/2019/AK-2019-001_a.jpg'', ''base/2019/AK-2019-001_b.jpg'',
          ''base/2019/AK-2019-001_c.jpg'']"
  by (simp add: find_images_for_object_def is_year_def isdigit_def)

lemma sort_distinct_set:
  "distinct xs \<Longrightarrow> distinct ys \<Longrightarrow> set xs = set ys \<Longrightarrow> sort xs = sort (ys :: 'a :: linorder list)"
  by (metis sorted_list_of_set_sort_remdups distinct_remdups_id)

text \<open>
  Claim C1, amended. With the year as a piece of its own, identifier AK/2019/001, and the
  folder 2019 under the base folder holding exactly the four files, in whatever order the
  system lists them, the result with cap 3 is the paths of the files a, b, c in this
  order. For the identifier AK/2019-001 the result is empty.
\<close>

theorem find_images_example:
  assumes "path_exists w (path_join base ''2019'')"
      and "listdir w (path_join base ''2019'') = Inr entries"
      and "distinct entries"
      and "set entries = {''AK-2019-001_a.jpg'', ''AK-2019-001_b.jpg'',
                          ''AK-2019-001_c.jpg'', ''AK-2019-001_d.jpg''}"
  shows "find_images_for_object w base ''AK/2019/001'' 3 =
           Inr (map (path_join (path_join base ''2019''))
                  [''AK-2019-001_a.jpg'', ''AK-2019-001_b.jpg'', ''AK-2019-001_c.jpg''])
       \<and> find_images_for_object w base ''AK/2019-001'' 3 = Inr []"
proof -
  let ?four = "[''AK-2019-001_a.jpg'', ''AK-2019-001_b.jpg'',
                ''AK-2019-001_c.jpg'', ''AK-2019-001_d.jpg'']"
  let ?P = "\<lambda>f. endswith_any (lower f) [''.jpg'', ''.jpeg'', ''.png'']"
  let ?Q = "\<lambda>f. startswith f ''AK-2019-001''"
  have y: "List.find is_year (split_sep CHR ''/'' ''AK/2019/001'') = Some ''2019''"
    by code_simp
  have pre: "split_ws (replace_char CHR ''/'' CHR ''-'' ''AK/2019/001'') = [''AK-2019-001'']"
    by code_simp
  have "list_all ?P ?four" by code_simp
  then have 1: "filter ?P entries = entries"
    using assms(4) by (simp add: list_all_iff)
  have "list_all ?Q ?four" by code_simp
  then have 2: "filter ?Q entries = entries"
    using assms(4) by (simp add: list_all_iff)
  have "distinct ?four" by simp
  moreover have "set entries = set ?four" using assms(4) by auto
  ultimately have "sort entries = sort ?four"
    using assms(3) by (intro sort_distinct_set)
  also have "sort ?four = ?four" by code_simp
  finally have 3: "sort entries = ?four" .
  have 4: "py_slice ?four 0 3 =
             [''AK-2019-001_a.jpg'', ''AK-2019-001_b.jpg'', ''AK-2019-001_c.jpg'']"
    by (simp add: py_slice_def)
  have a: "find_images_for_object w base ''AK/2019/001'' 3 =
           Inr (map (path_join (path_join base ''2019''))
                  [''AK-2019-001_a.jpg'', ''AK-2019-001_b.jpg'', ''AK-2019-001_c.jpg''])"
    unfolding find_images_for_object_def Let_def y pre
    using assms(1,2) by (simp only: 1 2 3 4 option.case sum.case list.case if_False not_True_eq_False simp_thms)
  have "List.find is_year (split_sep CHR ''/'' ''AK/2019-001'') = None"
    by code_simp
  then have b: "find_images_for_object w base ''AK/2019-001'' 3 = Inr []"
    by (simp add: find_images_for_object_def)
  from a b show ?thesis ..
qed

text \<open>
  The amended example in the example world, whose listing is not sorted.
\<close>

theorem find_images_example_witness:
  "find_images_for_object example_world ''base'' ''AK/2019/001'' 3 =
     Inr [''base/2019/AK-2019-001_a.jpg'', ''base/2019/AK-2019-001_b.jpg'',
          ''base/2019/AK-2019-001_c.jpg'']"
proof -
  have 1: "path_exists example_world (path_join ''base'' ''2019'')"
    by (simp add: example_world_def path_join_def startswith_def endswith_def)
  have 2: "listdir example_world (path_join ''base'' ''2019'') =
             Inr [''AK-2019-001_d.jpg'', ''AK-2019-001_b.jpg'',
                  ''AK-2019-001_a.jpg'', ''AK-2019-001_c.jpg'']"
    by (simp add: example_world_def path_join_def startswith_def endswith_def)
  have 3: "distinct [''AK-2019-001_d.jpg'', ''AK-2019-001_b.jpg'',
                     ''AK-2019-001_a.jpg'', ''AK-2019-001_c.jpg'']" by simp
  have 4: "set [''AK-2019-001_d.jpg'', ''AK-2019-001_b.jpg'',
                ''AK-2019-001_a.jpg'', ''AK-2019-001_c.jpg''] =
           {''AK-2019-001_a.jpg'', ''AK-2019-001_b.jpg'',
            ''AK-2019-001_c.jpg'', ''AK-2019-001_d.jpg''}" by auto
  from find_images_example [OF 1 2 3 4]
  show ?thesis by (simp add: path_join_def startswith_def endswith_def)
qed

section \<open>Generation Client: the retry loop\<close>

lemma upt3: "[0..<3] = [0, 1, 2]"
  by (simp add: upt_rec)

lemma less3: "n < (3::nat) \<longleftrightarrow> n = 0 \<or> n = 1 \<or> n = 2"
  by auto

lemma generate_attempts:
  "encode_all w image_paths = Inr imgs \<Longrightarrow>
   generate_catalog_text w image_paths prompt_text st = attempts w [0, 1, 2] st"
  by (simp add: generate_catalog_text_def upt3)

lemma rate_limitedD: "rate_limited w n \<Longrightarrow> \<exists>msg. post w n = HttpError 429 msg"
  by (auto simp: rate_limited_def split: response.splits)

lemma attempts_retry:
  "rate_limited w (requests st) \<Longrightarrow>
   attempts w (attempt # rest) st =
     attempts w rest (st\<lparr>requests := requests st + 1, sleeps := sleeps st @ [5 * (attempt + 1)]\<rparr>)"
  by (auto dest!: rate_limitedD simp: Let_def)

lemma attempts_requests:
  "requests (snd (attempts w as st)) \<le> requests st + length as"
proof (induction as arbitrary: st)
  case Nil
  then show ?case by simp
next
  case (Cons a as)
  show ?case
  proof (cases "post w (requests st)")
    case (HttpError status msg)
    show ?thesis
    proof (cases "status = 429")
      case True
      have "requests (snd (attempts w as (st\<lparr>requests := requests st + 1,
               sleeps := sleeps st @ [5 * (a + 1)]\<rparr>))) \<le> requests st + 1 + length as"
        using Cons.IH [of "st\<lparr>requests := requests st + 1, sleeps := sleeps st @ [5 * (a + 1)]\<rparr>"]
        by simp
      with HttpError True show ?thesis by (simp add: Let_def)
    next
      case False
      with HttpError show ?thesis by (simp add: Let_def)
    qed
  qed (simp_all add: Let_def)
qed

lemma attempts_first_request:
  "requests st < requests (snd (attempts w (a # as) st))"
proof -
  have "requests st + 1 \<le> requests (snd (attempts w (a # as) st))"
  proof (cases "post w (requests st)")
    case (HttpError status msg)
    show ?thesis
    proof (cases "status = 429")
      case True
      have mono: "\<And>bs s. requests s \<le> requests (snd (attempts w bs s))"
      proof -
        fix bs s show "requests s \<le> requests (snd (attempts w bs s))"
        proof (induction bs arbitrary: s)
          case Nil then show ?case by simp
        next
          case (Cons b bs)
          show ?case
          proof (cases "post w (requests s)")
            case (HttpError status' msg')
            show ?thesis
            proof (cases "status' = 429")
              case True
              have "requests (s\<lparr>requests := requests s + 1, sleeps := sleeps s @ [5 * (b + 1)]\<rparr>)
                    \<le> requests (snd (attempts w bs (s\<lparr>requests := requests s + 1,
                         sleeps := sleeps s @ [5 * (b + 1)]\<rparr>)))"
                by (rule Cons.IH)
              with HttpError True show ?thesis by (simp add: Let_def)
            next
              case False
              with HttpError show ?thesis by (simp add: Let_def)
            qed
          qed (simp_all add: Let_def)
        qed
      qed
      have "requests (st\<lparr>requests := requests st + 1, sleeps := sleeps st @ [5 * (a + 1)]\<rparr>)
            \<le> requests (snd (attempts w as (st\<lparr>requests := requests st + 1,
                 sleeps := sleeps st @ [5 * (a + 1)]\<rparr>)))"
        by (rule mono)
      with HttpError True show ?thesis by (simp add: Let_def)
    next
      case False
      with HttpError show ?thesis by (simp add: Let_def)
    qed
  qed (simp_all add: Let_def)
  then show ?thesis by simp
qed

lemma attempts_two_retries:
  assumes "rate_limited w (requests st)" and "rate_limited w (requests st + 1)"
  shows "attempts w [0, 1, 2] st =
           attempts w [2] (st\<lparr>requests := requests st + 2, sleeps := sleeps st @ [5, 10]\<rparr>)"
proof -
  let ?s1 = "st\<lparr>requests := requests st + 1, sleeps := sleeps st @ [5 * (0 + 1)]\<rparr>"
  have 1: "attempts w [0, 1, 2] st = attempts w [1, 2] ?s1"
    using assms(1) by (rule attempts_retry)
  have "rate_limited w (requests ?s1)" using assms(2) by simp
  then have "attempts w [1, 2] ?s1 =
      attempts w [2] (?s1\<lparr>requests := requests ?s1 + 1, sleeps := sleeps ?s1 @ [5 * (1 + 1)]\<rparr>)"
    by (rule attempts_retry)
  with 1 show ?thesis by simp
qed

text \<open>
  Claim C3. Once the images are encoded, \<open>generate_catalog_text\<close> sends at least one
  and at most three requests. A request answered with status 429 on attempt 1 is followed
  by a wait of 5 and a second request, one on attempt 2 by a wait of 10 and a third
  request. Two such answers and then a success return the text of the success after the
  waits 5 and 10. Three such answers return the text about too many failed attempts, with
  three requests sent and no fourth. Any other HTTP error, and any other request error, on
  attempt 1, 2 or 3 ends the call at once with a text that begins with \<open>Error:\<close>, returned
  and not raised, after the waits of the earlier attempts only; the text about too many
  attempts is none of these.
\<close>

theorem retry_policy:
  assumes "encode_all w image_paths = Inr image_contents"
  shows
    "requests st < requests (snd (generate_catalog_text w image_paths prompt_text st))
   \<and> requests (snd (generate_catalog_text w image_paths prompt_text st)) \<le> requests st + 3
   \<and> (rate_limited w (requests st) \<longrightarrow>
        (\<exists>later. sleeps (snd (generate_catalog_text w image_paths prompt_text st))
                   = sleeps st @ 5 # later)
        \<and> requests st + 2 \<le> requests (snd (generate_catalog_text w image_paths prompt_text st)))
   \<and> (rate_limited w (requests st) \<and> rate_limited w (requests st + 1) \<longrightarrow>
        (\<exists>later. sleeps (snd (generate_catalog_text w image_paths prompt_text st))
                   = sleeps st @ 5 # 10 # later)
        \<and> requests (snd (generate_catalog_text w image_paths prompt_text st)) = requests st + 3)
   \<and> (\<forall>text. rate_limited w (requests st) \<and> rate_limited w (requests st + 1)
          \<and> post w (requests st + 2) = Success text \<longrightarrow>
        generate_catalog_text w image_paths prompt_text st =
          (Inr text, st\<lparr>requests := requests st + 3, sleeps := sleeps st @ [5, 10]\<rparr>))
   \<and> (rate_limited w (requests st) \<and> rate_limited w (requests st + 1)
          \<and> rate_limited w (requests st + 2) \<longrightarrow>
        fst (generate_catalog_text w image_paths prompt_text st) =
          Inr ''Error: Aborted after too many failed attempts''
        \<and> requests (snd (generate_catalog_text w image_paths prompt_text st)) = requests st + 3)
   \<and> (\<forall>n status msg. n < 3 \<and> (\<forall>k<n. rate_limited w (requests st + k))
          \<and> post w (requests st + n) = HttpError status msg \<and> status \<noteq> 429 \<longrightarrow>
        generate_catalog_text w image_paths prompt_text st =
          (Inr (''Error: API error: '' @ msg),
           st\<lparr>requests := requests st + n + 1,
              sleeps := sleeps st @ map (\<lambda>k. 5 * (k + 1)) [0..<n]\<rparr>))
   \<and> (\<forall>n msg. n < 3 \<and> (\<forall>k<n. rate_limited w (requests st + k))
          \<and> post w (requests st + n) = RequestError msg \<longrightarrow>
        generate_catalog_text w image_paths prompt_text st =
          (Inr (''Error: Connection error: '' @ msg),
           st\<lparr>requests := requests st + n + 1,
              sleeps := sleeps st @ map (\<lambda>k. 5 * (k + 1)) [0..<n]\<rparr>))
   \<and> (\<forall>msg. ''Error: Aborted after too many failed attempts'' \<noteq> ''Error: API error: '' @ msg
          \<and> ''Error: Aborted after too many failed attempts'' \<noteq> ''Error: Connection error: '' @ msg)"
proof -
  let ?G = "generate_catalog_text w image_paths prompt_text st"
  have G: "?G = attempts w [0, 1, 2] st"
    using assms by (rule generate_attempts)
  let ?s1 = "st\<lparr>requests := requests st + 1, sleeps := sleeps st @ [5]\<rparr>"
  let ?s2 = "st\<lparr>requests := requests st + 2, sleeps := sleeps st @ [5, 10]\<rparr>"
  have r1: "attempts w [0, 1, 2] st = attempts w [1, 2] ?s1" if "rate_limited w (requests st)"
    using attempts_retry [OF that, of 0 "[1, 2]"] by simp
  have r2: "attempts w [0, 1, 2] st = attempts w [2] ?s2"
    if "rate_limited w (requests st)" "rate_limited w (requests st + 1)"
    using that by (rule attempts_two_retries)
  have p1: "requests st < requests (snd ?G)"
    unfolding G by (rule attempts_first_request)
  have p2: "requests (snd ?G) \<le> requests st + 3"
    unfolding G using attempts_requests [of w "[0, 1, 2]" st] by simp
  have p3: "(\<exists>later. sleeps (snd ?G) = sleeps st @ 5 # later) \<and> requests st + 2 \<le> requests (snd ?G)"
    if a: "rate_limited w (requests st)"
  proof -
    have req: "requests ?s1 < requests (snd (attempts w [1, 2] ?s1))"
      by (rule attempts_first_request)
    have sl: "\<And>bs s. \<exists>later. sleeps (snd (attempts w bs s)) = sleeps s @ later"
    proof -
      fix bs s show "\<exists>later. sleeps (snd (attempts w bs s)) = sleeps s @ later"
      proof (induction bs arbitrary: s)
        case Nil then show ?case by simp
      next
        case (Cons b bs)
        show ?case
        proof (cases "post w (requests s)")
          case (HttpError status msg)
          show ?thesis
          proof (cases "status = 429")
            case True
            from Cons.IH [of "s\<lparr>requests := requests s + 1, sleeps := sleeps s @ [5 * (b + 1)]\<rparr>"]
            obtain later where "sleeps (snd (attempts w bs
                 (s\<lparr>requests := requests s + 1, sleeps := sleeps s @ [5 * (b + 1)]\<rparr>)))
                 = sleeps s @ [5 * (b + 1)] @ later" by auto
            with HttpError True show ?thesis by (simp add: Let_def)
          next
            case False
            with HttpError show ?thesis by (simp add: Let_def)
          qed
        qed (simp_all add: Let_def)
      qed
    qed
    from sl [of "[1, 2]" ?s1] obtain later
      where "sleeps (snd (attempts w [1, 2] ?s1)) = sleeps st @ 5 # later" by auto
    with req show ?thesis unfolding G r1 [OF a] by auto
  qed
  have p4: "(\<exists>later. sleeps (snd ?G) = sleeps st @ 5 # 10 # later) \<and> requests (snd ?G) = requests st + 3"
    if a: "rate_limited w (requests st)" and b: "rate_limited w (requests st + 1)"
  proof -
    have eq: "?G = attempts w [2] ?s2" unfolding G by (rule r2 [OF a b])
    show ?thesis unfolding eq
      by (cases "post w (requests st + 2)") (auto simp: Let_def)
  qed
  have p5: "?G = (Inr answer, st\<lparr>requests := requests st + 3, sleeps := sleeps st @ [5, 10]\<rparr>)"
    if a: "rate_limited w (requests st)" and b: "rate_limited w (requests st + 1)"
      and c: "post w (requests st + 2) = Success answer" for answer
    unfolding G r2 [OF a b] using c by (simp add: Let_def)
  have p6: "fst ?G = Inr ''Error: Aborted after too many failed attempts''
            \<and> requests (snd ?G) = requests st + 3"
    if a: "rate_limited w (requests st)" and b: "rate_limited w (requests st + 1)"
      and c: "rate_limited w (requests st + 2)"
  proof -
    from rate_limitedD [OF c] obtain msg where "post w (requests st + 2) = HttpError 429 msg" ..
    then show ?thesis unfolding G r2 [OF a b] by (simp add: Let_def)
  qed
  have p7: "?G = (Inr (''Error: API error: '' @ msg),
           st\<lparr>requests := requests st + n + 1,
              sleeps := sleeps st @ map (\<lambda>k. 5 * (k + 1)) [0..<n]\<rparr>)"
    if n: "n < 3" and rl: "\<forall>k<n. rate_limited w (requests st + k)"
      and e: "post w (requests st + n) = HttpError status msg" "status \<noteq> 429" for n status msg
  proof -
    from n consider "n = 0" | "n = 1" | "n = 2" by (auto simp: less3)
    then show ?thesis
    proof cases
      case 1
      with e show ?thesis unfolding G by (simp add: Let_def)
    next
      case 2
      with rl have a: "rate_limited w (requests st)" by simp
      from e 2 show ?thesis unfolding G r1 [OF a] by (simp add: Let_def)
    next
      case 3
      with rl have a: "rate_limited w (requests st)" and b: "rate_limited w (requests st + 1)"
        using rl [rule_format, of 0] rl [rule_format, of 1] by simp_all
      from e 3 show ?thesis unfolding G r2 [OF a b] by (simp add: Let_def upt_rec)
    qed
  qed
  have p8: "?G = (Inr (''Error: Connection error: '' @ msg),
           st\<lparr>requests := requests st + n + 1,
              sleeps := sleeps st @ map (\<lambda>k. 5 * (k + 1)) [0..<n]\<rparr>)"
    if n: "n < 3" and rl: "\<forall>k<n. rate_limited w (requests st + k)"
      and e: "post w (requests st + n) = RequestError msg" for n msg
  proof -
    from n consider "n = 0" | "n = 1" | "n = 2" by (auto simp: less3)
    then show ?thesis
    proof cases
      case 1
      with e show ?thesis unfolding G by (simp add: Let_def)
    next
      case 2
      with rl have a: "rate_limited w (requests st)" by simp
      from e 2 show ?thesis unfolding G r1 [OF a] by (simp add: Let_def)
    next
      case 3
      with rl have a: "rate_limited w (requests st)" and b: "rate_limited w (requests st + 1)"
        using rl [rule_format, of 0] rl [rule_format, of 1] by simp_all
      from e 3 show ?thesis unfolding G r2 [OF a b] by (simp add: Let_def upt_rec)
    qed
  qed
  have p9: "\<forall>msg. ''Error: Aborted after too many failed attempts'' \<noteq> ''Error: API error: '' @ msg
          \<and> ''Error: Aborted after too many failed attempts'' \<noteq> ''Error: Connection error: '' @ msg"
    by simp
  from p1 p2 p3 p4 p5 p6 p7 p8 p9 show ?thesis by blast
qed

text \<open>
  Two services: one answers 429, 429 and then succeeds; the other answers 429 and then
  500, which ends the call after one wait.
\<close>

theorem retry_policy_witness:
  "generate_catalog_text retry_world [''base/2019/AK-2019-001_a.jpg'']
     (build_prompt [] [''base/2019/AK-2019-001_a.jpg''] ''AK/2019/001'') start
     = (Inr ''Deutsche Beschreibung'', \<lparr>sleeps = [5, 10], requests = 3\<rparr>)
   \<and> generate_catalog_text broken_world [''base/2019/AK-2019-001_a.jpg'']
     (build_prompt [] [''base/2019/AK-2019-001_a.jpg''] ''AK/2019/001'') start
     = (Inr ''Error: API error: 500 Server Error: Internal Server Error'',
        \<lparr>sleeps = [5], requests = 2\<rparr>)"
proof -
  let ?paths = "[''base/2019/AK-2019-001_a.jpg'']"
  let ?prompt = "build_prompt [] [''base/2019/AK-2019-001_a.jpg''] ''AK/2019/001''"
  have e1: "encode_all retry_world ?paths = Inr [''data:image/jpeg;base64,QUJD'']"
    by (simp add: retry_world_def example_world_def)
  have e2: "encode_all broken_world ?paths = Inr [''data:image/jpeg;base64,QUJD'']"
    by (simp add: broken_world_def example_world_def)
  note t1 = retry_policy [OF e1, of start ?prompt]
  note t2 = retry_policy [OF e2, of start ?prompt]
  have p1: "rate_limited retry_world (requests start)
            \<and> rate_limited retry_world (requests start + 1)
            \<and> post retry_world (requests start + 2) = Success ''Deutsche Beschreibung''"
    by (simp add: rate_limited_def retry_world_def start_def)
  have a: "generate_catalog_text retry_world ?paths ?prompt start
     = (Inr ''Deutsche Beschreibung'',
        start\<lparr>requests := requests start + 3, sleeps := sleeps start @ [5, 10]\<rparr>)"
    by (rule t1 [THEN conjunct2, THEN conjunct2, THEN conjunct2, THEN conjunct2,
          THEN conjunct1, rule_format, OF p1])
  have p2: "(1::nat) < 3 \<and> (\<forall>k<1. rate_limited broken_world (requests start + k))
        \<and> post broken_world (requests start + 1)
            = HttpError 500 ''500 Server Error: Internal Server Error'' \<and> (500::nat) \<noteq> 429"
    by (simp add: rate_limited_def broken_world_def start_def)
  have b: "generate_catalog_text broken_world ?paths ?prompt start
     = (Inr (''Error: API error: '' @ ''500 Server Error: Internal Server Error''),
        start\<lparr>requests := requests start + 1 + 1,
           sleeps := sleeps start @ map (\<lambda>k. 5 * (k + 1)) [0..<1]\<rparr>)"
    by (rule t2 [THEN conjunct2, THEN conjunct2, THEN conjunct2, THEN conjunct2,
          THEN conjunct2, THEN conjunct2, THEN conjunct1, rule_format, OF p2])
  have sa: "start\<lparr>requests := requests start + 3, sleeps := sleeps start @ [5, 10]\<rparr>
            = \<lparr>sleeps = [5, 10], requests = 3\<rparr>"
    by (simp add: start_def)
  have sb: "start\<lparr>requests := requests start + 1 + 1,
           sleeps := sleeps start @ map (\<lambda>k. 5 * (k + 1)) [0..<1]\<rparr>
            = \<lparr>sleeps = [5], requests = 2\<rparr>"
    by (simp add: start_def)
  have sc: "''Error: API error: '' @ ''500 Server Error: Internal Server Error''
            = ''Error: API error: 500 Server Error: Internal Server Error''"
    by simp
  from a b show ?thesis unfolding sa sb sc by (rule conjI)
qed

text \<open>
  Claim C10. When all three requests are answered with status 429, the call waits 5, 10
  and then 15: the third wait follows the last attempt, and nothing is sent after it. The
  call then returns the text about too many failed attempts.
\<close>

theorem wait_after_last_attempt:
  assumes "encode_all w image_paths = Inr image_contents"
      and "rate_limited w (requests st)"
      and "rate_limited w (requests st + 1)"
      and "rate_limited w (requests st + 2)"
  shows "generate_catalog_text w image_paths prompt_text st =
           (Inr ''Error: Aborted after too many failed attempts'',
            st\<lparr>requests := requests st + 3, sleeps := sleeps st @ [5, 10, 15]\<rparr>)"
proof -
  have "generate_catalog_text w image_paths prompt_text st = attempts w [0, 1, 2] st"
    using assms(1) by (rule generate_attempts)
  also have "\<dots> = attempts w [2]
      (st\<lparr>requests := requests st + 2, sleeps := sleeps st @ [5, 10]\<rparr>)"
    using assms(2,3) by (rule attempts_two_retries)
  also have "\<dots> = attempts w []
      (st\<lparr>requests := requests st + 3, sleeps := sleeps st @ [5, 10, 15]\<rparr>)"
    using attempts_retry [of w "st\<lparr>requests := requests st + 2, sleeps := sleeps st @ [5, 10]\<rparr>"
        2 "[]"] assms(4)
    by simp
  finally show ?thesis by simp
qed

text \<open>
  A service that always answers 429: three requests, and the waits 5, 10, 15.
\<close>

theorem wait_after_last_attempt_witness:
  "generate_catalog_text busy_world [''base/2019/AK-2019-001_a.jpg'']
     (build_prompt [] [''base/2019/AK-2019-001_a.jpg''] ''AK/2019/001'') start
     = (Inr ''Error: Aborted after too many failed attempts'',
        \<lparr>sleeps = [5, 10, 15], requests = 3\<rparr>)"
proof -
  have e: "encode_all busy_world [''base/2019/AK-2019-001_a.jpg'']
              = Inr [''data:image/jpeg;base64,QUJD'']"
    by (simp add: busy_world_def example_world_def)
  have r: "rate_limited busy_world (requests start)"
    "rate_limited busy_world (requests start + 1)"
    "rate_limited busy_world (requests start + 2)"
    by (simp_all add: rate_limited_def busy_world_def)
  from wait_after_last_attempt [OF e r] show ?thesis by (simp add: start_def)
qed

section \<open>Batch Orchestrator: order of the records\<close>

lemma process_object_id:
  "Object_ID (fst (process_object w excel_path base_folder cols g st)) = strip (fst g)"
  unfolding process_object_def object_body_def Let_def
  by (auto split: sum.splits list.splits prod.splits if_splits)

lemma process_groups_ids:
  "map Object_ID (fst (process_groups w excel_path base_folder cols max_objects i gs st))
     = map (\<lambda>g. strip (fst g)) (take (nat (max_objects - int i)) gs)"
proof (induction gs arbitrary: i st)
  case Nil
  then show ?case by simp
next
  case (Cons g gs)
  show ?case
  proof (cases "int i \<ge> max_objects")
    case True
    then show ?thesis by simp
  next
    case False
    then have n: "nat (max_objects - int i) = Suc (nat (max_objects - int (i + 1)))"
      by simp
    obtain r st1 where po: "process_object w excel_path base_folder cols g st = (r, st1)"
      by (cases "process_object w excel_path base_folder cols g st")
    obtain rs st2 where pg:
      "process_groups w excel_path base_folder cols max_objects (i + 1) gs st1 = (rs, st2)"
      by (cases "process_groups w excel_path base_folder cols max_objects (i + 1) gs st1")
    have r: "Object_ID r = strip (fst g)"
      using process_object_id [of w excel_path base_folder cols g st] po by simp
    have rs: "map Object_ID rs = map (\<lambda>g. strip (fst g)) (take (nat (max_objects - int (i + 1))) gs)"
      using Cons.IH [of "i + 1" st1] pg by simp
    have "fst (process_groups w excel_path base_folder cols max_objects i (g # gs) st) = r # rs"
      using False po pg by simp
    then show ?thesis unfolding n using r rs by simp
  qed
qed

lemma groupby_keys:
  assumes "''t1'' \<in> set cols" and "distinct cols"
  shows "\<exists>gs. groupby_t1 cols rs = Inr gs
           \<and> map fst gs = sorted_list_of_set (set (List.map_filter (group_key cols) rs))"
proof -
  have "{x. x = ''t1''} \<inter> set cols = {''t1''}" using assms(1) by auto
  then have "length (filter (\<lambda>c. c = ''t1'') cols) = 1"
    using distinct_length_filter [OF assms(2), of "\<lambda>c. c = ''t1''"] by simp
  then show ?thesis
    using assms(1) by (simp add: groupby_t1_def comp_def sorted_list_of_set_sort_remdups)
qed

lemma group_key_nth:
  assumes "distinct cols" and "j < length cols" and "cols ! j = ''t1''"
      and "length r = length cols"
  shows "group_key cols r = (case r ! j of PyStr s \<Rightarrow> Some s | _ \<Rightarrow> None)"
proof -
  have "map_of (zip cols r) (cols ! j) = Some (r ! j)"
    using assms by (intro map_of_zip_nth) simp_all
  then show ?thesis unfolding group_key_def assms(3) by (simp split: pyval.splits)
qed

lemma set_map_filter: "set (List.map_filter f xs) = {y. \<exists>x\<in>set xs. f x = Some y}"
  by (induction xs) (auto split: option.splits)

lemma keys_nth:
  assumes "distinct cols" and "j < length cols" and "cols ! j = ''t1''"
      and "\<forall>r\<in>set rs. length r = length cols"
  shows "set (List.map_filter (group_key cols) rs) = {s. \<exists>r\<in>set rs. r ! j = PyStr s}"
proof -
  have "\<And>r s. r \<in> set rs \<Longrightarrow> group_key cols r = Some s \<longleftrightarrow> r ! j = PyStr s"
    using group_key_nth [OF assms(1,2,3)] assms(4) by (auto split: pyval.splits)
  then show ?thesis unfolding set_map_filter by blast
qed

text \<open>
  Claim C2 as stated fails. The table lists B/2020/1 before A/2020/1, so B/2020/1 is the
  first identifier seen; the first record carries A/2020/1, because the groups of
  \<open>df.groupby("t1")\<close> come in ascending order of the key.
\<close>

theorem groups_in_first_seen_order_counterexample:
  "fst (process_excel example_world unsorted_table ''Liste.xls'' ''base'' 1 2 5 start)
     = Inr [\<lparr>Source = ''Liste.xls'', Object_ID = ''A/2020/1'', Images = [],
              Description = ''Error: No valid image found''\<rparr>,
            \<lparr>Source = ''Liste.xls'', Object_ID = ''B/2020/1'', Images = [],
              Description = ''Error: No valid image found''\<rparr>]
   \<and> first_seen_order
        (List.map_filter (group_key (map norm_label (columns unsorted_table)))
           (py_slice (rows unsorted_table) (1 - 1) 2))
     = [''B/2020/1'', ''A/2020/1'']
   \<and> (case fst (process_excel example_world unsorted_table ''Liste.xls'' ''base'' 1 2 5 start)
        of Inl e \<Rightarrow> [] | Inr results \<Rightarrow> map Object_ID results)
     \<noteq> map strip (first_seen_order
        (List.map_filter (group_key (map norm_label (columns unsorted_table)))
           (py_slice (rows unsorted_table) (1 - 1) 2)))"
  by code_simp

text \<open>
  Claim C2, amended. Take a table whose labels stay distinct when normalised, with the
  column t1 at position j, and whose rows in the row range have a cell for every column,
  the cell of t1 being a text or missing. Then the run returns its records, and the
  record number i carries, trimmed, the identifier number i of the distinct identifiers
  of the row range in ascending order, up to the object cap. (Where the trimmed
  identifier is empty, src/aktuell.py writes the missing sentinel into the record.)
\<close>

theorem groups_in_key_order:
  assumes "distinct (map norm_label (columns df))"
      and "j < length (columns df)"
      and "norm_label (columns df ! j) = ''t1''"
      and "\<forall>r\<in>set (py_slice (rows df) (row_start_1_based - 1) row_end_1_based).
             length r = length (columns df) \<and> text_or_missing (r ! j)"
  shows "\<exists>results st'.
           process_excel w df excel_path base_folder row_start_1_based row_end_1_based
             max_objects st = (Inr results, st')
         \<and> map Object_ID results =
             map strip (take (nat max_objects)
               (sorted_list_of_set
                  {s. \<exists>r\<in>set (py_slice (rows df) (row_start_1_based - 1) row_end_1_based).
                        r ! j = PyStr s}))"
proof -
  let ?cols = "map norm_label (columns df)"
  let ?body = "py_slice (rows df) (row_start_1_based - 1) row_end_1_based"
  have j: "j < length ?cols" using assms(2) by simp
  have cj: "?cols ! j = ''t1''" using assms(2,3) by simp
  have t1: "''t1'' \<in> set ?cols" using j cj by (metis nth_mem)
  from groupby_keys [OF t1 assms(1), of ?body] obtain gs where
    gb: "groupby_t1 ?cols ?body = Inr gs"
    and ks: "map fst gs = sorted_list_of_set (set (List.map_filter (group_key ?cols) ?body))"
    by blast
  let ?pg = "process_groups w excel_path base_folder ?cols max_objects 0 gs st"
  have pe: "process_excel w df excel_path base_folder row_start_1_based row_end_1_based
              max_objects st = (Inr (fst ?pg), snd ?pg)"
    using t1 gb unfolding process_excel_def Let_def by (simp add: case_prod_beta)
  have len: "\<forall>r\<in>set ?body. length r = length ?cols" using assms(4) by simp
  have "map Object_ID (fst ?pg)
          = map (\<lambda>g. strip (fst g)) (take (nat (max_objects - int 0)) gs)"
    by (rule process_groups_ids)
  also have "\<dots> = map strip (take (nat max_objects) (map fst gs))"
    by (simp add: take_map comp_def)
  also have "\<dots> = map strip (take (nat max_objects)
               (sorted_list_of_set {s. \<exists>r\<in>set ?body. r ! j = PyStr s}))"
    unfolding ks keys_nth [OF assms(1) j cj len] ..
  finally show ?thesis using pe by blast
qed

text \<open>
  The amended order on the table of the counterexample, whose column t1 is the first.
\<close>

theorem groups_in_key_order_witness:
  "\<exists>results st'.
     process_excel example_world unsorted_table ''Liste.xls'' ''base'' 1 2 5 start
       = (Inr results, st')
   \<and> map Object_ID results = [''A/2020/1'', ''B/2020/1'']"
proof -
  have body: "py_slice (rows unsorted_table) (1 - 1) 2 =
                [[PyStr ''B/2020/1'', PyStr ''Radio''],
                 [PyStr ''A/2020/1'', PyStr ''Telefon'']]"
    by code_simp
  have 1: "distinct (map norm_label (columns unsorted_table))"
    by code_simp
  have 2: "0 < length (columns unsorted_table)"
    by (simp add: unsorted_table_def)
  have 3: "norm_label (columns unsorted_table ! 0) = ''t1''"
    by code_simp
  have 4: "\<forall>r\<in>set (py_slice (rows unsorted_table) (1 - 1) 2).
             length r = length (columns unsorted_table) \<and> text_or_missing (r ! 0)"
    unfolding body by (simp add: unsorted_table_def)
  have "{s. \<exists>r\<in>set (py_slice (rows unsorted_table) (1 - 1) 2). r ! 0 = PyStr s}
          = set [''B/2020/1'', ''A/2020/1'']"
    unfolding body by auto
  then have "sorted_list_of_set
               {s. \<exists>r\<in>set (py_slice (rows unsorted_table) (1 - 1) 2). r ! 0 = PyStr s}
             = sort (remdups [''B/2020/1'', ''A/2020/1''])"
    by (simp only: sorted_list_of_set_sort_remdups)
  also have "\<dots> = [''A/2020/1'', ''B/2020/1'']" by code_simp
  finally have sl: "sorted_list_of_set
               {s. \<exists>r\<in>set (py_slice (rows unsorted_table) (1 - 1) 2). r ! 0 = PyStr s}
             = [''A/2020/1'', ''B/2020/1'']" .
  have e: "map strip (take (nat 5)
               (sorted_list_of_set
                  {s. \<exists>r\<in>set (py_slice (rows unsorted_table) (1 - 1) 2). r ! 0 = PyStr s}))
           = [''A/2020/1'', ''B/2020/1'']"
    unfolding sl by code_simp
  from groups_in_key_order [OF 1 2 3 4, of example_world "''Liste.xls''" "''base''" 5 start]
  show ?thesis unfolding e .
qed

lemma process_excel_two_key_columns:
  "process_excel example_world twice_table ''Liste.xls'' ''base'' 1 1 5 start =
     (Inl (PyExn (''Grouper for '' @ [CHR 0x27] @ ''t1'' @ [CHR 0x27] @ '' not 1-dimensional'')),
      start)"
  by code_simp

section \<open>Batch Orchestrator: one failing object\<close>

lemma process_groups_length:
  "length (fst (process_groups w excel_path base_folder cols max_objects i gs st))
     = min (length gs) (nat (max_objects - int i))"
  using arg_cong [OF process_groups_ids [of w excel_path base_folder cols max_objects i gs st],
      of length]
  by simp

lemma process_groups_step:
  assumes "int i < max_objects"
  shows "process_groups w excel_path base_folder cols max_objects i (g # gs) st =
           (fst (process_object w excel_path base_folder cols g st)
              # fst (process_groups w excel_path base_folder cols max_objects (i + 1) gs
                      (snd (process_object w excel_path base_folder cols g st))),
            snd (process_groups w excel_path base_folder cols max_objects (i + 1) gs
                      (snd (process_object w excel_path base_folder cols g st))))"
  using assms by (simp add: case_prod_beta)

lemma process_object_raises:
  assumes "object_body w excel_path base_folder cols g st = (Inl e, st1)"
  shows "process_object w excel_path base_folder cols g st =
           (\<lparr>Source = basename excel_path, Object_ID = strip (fst g), Images = [],
             Description = ''Error: Processing error: '' @ exn_str e\<rparr>, st1)"
  using assms by (simp add: process_object_def)

lemma process_object_returns:
  assumes "object_body w excel_path base_folder cols g st = (Inr r, st1)"
  shows "process_object w excel_path base_folder cols g st = (r, st1)"
  using assms by (simp add: process_object_def)

text \<open>
  Claim C6. Every group below the object cap gives exactly one record, whatever happens
  while it is processed. When the statements under \<open>try\<close> raise for a group, its record has
  the description \<open>Error: Processing error:\<close> followed by the text of the exception, and
  the loop goes on with the next group from the state the failed one left. For three
  objects of which the second raises, the result is three records: the record of the
  first, the error record of the second, the record of the third.
\<close>

theorem partial_failure_isolation:
  "length (fst (process_groups w excel_path base_folder cols max_objects i gs st))
     = min (length gs) (nat (max_objects - int i))
   \<and> (int i < max_objects
        \<and> object_body w excel_path base_folder cols g st = (Inl e, st1) \<longrightarrow>
      process_groups w excel_path base_folder cols max_objects i (g # gs) st =
        (\<lparr>Source = basename excel_path, Object_ID = strip (fst g), Images = [],
          Description = ''Error: Processing error: '' @ exn_str e\<rparr>
           # fst (process_groups w excel_path base_folder cols max_objects (i + 1) gs st1),
         snd (process_groups w excel_path base_folder cols max_objects (i + 1) gs st1)))
   \<and> (3 \<le> max_objects
        \<and> object_body w excel_path base_folder cols g1 st = (Inr r1, s1)
        \<and> object_body w excel_path base_folder cols g2 s1 = (Inl e, s2)
        \<and> object_body w excel_path base_folder cols g3 s2 = (Inr r3, s3) \<longrightarrow>
      process_groups w excel_path base_folder cols max_objects 0 [g1, g2, g3] st =
        ([r1,
          \<lparr>Source = basename excel_path, Object_ID = strip (fst g2), Images = [],
            Description = ''Error: Processing error: '' @ exn_str e\<rparr>,
          r3], s3))"
proof (intro conjI impI)
  show "length (fst (process_groups w excel_path base_folder cols max_objects i gs st))
     = min (length gs) (nat (max_objects - int i))"
    by (rule process_groups_length)
next
  assume a: "int i < max_objects
        \<and> object_body w excel_path base_folder cols g st = (Inl e, st1)"
  then have po: "process_object w excel_path base_folder cols g st =
           (\<lparr>Source = basename excel_path, Object_ID = strip (fst g), Images = [],
             Description = ''Error: Processing error: '' @ exn_str e\<rparr>, st1)"
    by (intro process_object_raises) simp
  from a have "int i < max_objects" by simp
  from process_groups_step [OF this, of w excel_path base_folder cols g gs st]
  show "process_groups w excel_path base_folder cols max_objects i (g # gs) st =
        (\<lparr>Source = basename excel_path, Object_ID = strip (fst g), Images = [],
          Description = ''Error: Processing error: '' @ exn_str e\<rparr>
           # fst (process_groups w excel_path base_folder cols max_objects (i + 1) gs st1),
         snd (process_groups w excel_path base_folder cols max_objects (i + 1) gs st1))"
    unfolding po by simp
next
  assume a: "3 \<le> max_objects
        \<and> object_body w excel_path base_folder cols g1 st = (Inr r1, s1)
        \<and> object_body w excel_path base_folder cols g2 s1 = (Inl e, s2)
        \<and> object_body w excel_path base_folder cols g3 s2 = (Inr r3, s3)"
  then have p1: "process_object w excel_path base_folder cols g1 st = (r1, s1)"
    by (intro process_object_returns) simp
  from a have p2: "process_object w excel_path base_folder cols g2 s1 =
           (\<lparr>Source = basename excel_path, Object_ID = strip (fst g2), Images = [],
             Description = ''Error: Processing error: '' @ exn_str e\<rparr>, s2)"
    by (intro process_object_raises) simp
  from a have p3: "process_object w excel_path base_folder cols g3 s2 = (r3, s3)"
    by (intro process_object_returns) simp
  from a have m: "\<not> max_objects \<le> 0" "\<not> max_objects \<le> 1" "\<not> max_objects \<le> 2"
    by simp_all
  show "process_groups w excel_path base_folder cols max_objects 0 [g1, g2, g3] st =
        ([r1,
          \<lparr>Source = basename excel_path, Object_ID = strip (fst g2), Images = [],
            Description = ''Error: Processing error: '' @ exn_str e\<rparr>,
          r3], s3)"
    using m by (simp add: p1 p2 p3)
qed

lemma process_excel_groups:
  assumes "map norm_label (columns df) = cols"
      and "''t1'' \<in> set cols"
      and "groupby_t1 cols (py_slice (rows df) (row_start_1_based - 1) row_end_1_based) = Inr gs"
      and "process_groups w excel_path base_folder cols max_objects 0 gs st = (results, st')"
  shows "process_excel w df excel_path base_folder row_start_1_based row_end_1_based
           max_objects st = (Inr results, st')"
  using assms by (simp add: process_excel_def)

text \<open>
  Three objects with one image each; the image of the second cannot be read, so
  \<open>encode_image\<close> raises inside \<open>generate_catalog_text\<close>. The first and the third record carry
  the texts of the service, the second the error text, and no request is sent for it.
\<close>

theorem partial_failure_isolation_witness:
  "process_excel faulty_world three_table ''Liste.xls'' ''base'' 1 3 5 start =
     (Inr [\<lparr>Source = ''Liste.xls'', Object_ID = ''AK/2019/001'',
             Images = ''AK-2019-001_a.jpg'', Description = ''Ein Telefon''\<rparr>,
           \<lparr>Source = ''Liste.xls'', Object_ID = ''AK/2019/002'', Images = [],
             Description = ''Error: Processing error: Permission denied''\<rparr>,
           \<lparr>Source = ''Liste.xls'', Object_ID = ''AK/2019/003'',
             Images = ''AK-2019-003_a.jpg'', Description = ''Eine Lampe''\<rparr>],
      \<lparr>sleeps = [10, 10], requests = 2\<rparr>)"
proof -
  let ?cols = "[''t1'', ''t10'']"
  let ?g1 = "(''AK/2019/001'', [[PyStr ''AK/2019/001'', PyStr ''Telefon'']])"
  let ?g2 = "(''AK/2019/002'', [[PyStr ''AK/2019/002'', PyStr ''Radio'']])"
  let ?g3 = "(''AK/2019/003'', [[PyStr ''AK/2019/003'', PyStr ''Lampe'']])"
  let ?r1 = "\<lparr>Source = ''Liste.xls'', Object_ID = ''AK/2019/001'',
             Images = ''AK-2019-001_a.jpg'', Description = ''Ein Telefon''\<rparr>"
  let ?r3 = "\<lparr>Source = ''Liste.xls'', Object_ID = ''AK/2019/003'',
             Images = ''AK-2019-003_a.jpg'', Description = ''Eine Lampe''\<rparr>"
  let ?s1 = "\<lparr>sleeps = [10], requests = 1\<rparr>"
  let ?s3 = "\<lparr>sleeps = [10, 10], requests = 2\<rparr>"
  have cols: "map norm_label (columns three_table) = ?cols"
    by code_simp
  have gb: "groupby_t1 ?cols (py_slice (rows three_table) (1 - 1) 3) = Inr [?g1, ?g2, ?g3]"
    by code_simp
  have b1: "object_body faulty_world ''Liste.xls'' ''base'' ?cols ?g1 start = (Inr ?r1, ?s1)"
    by code_simp
  have b2: "object_body faulty_world ''Liste.xls'' ''base'' ?cols ?g2 ?s1
              = (Inl (PyExn ''Permission denied''), ?s1)"
    by code_simp
  have b3: "object_body faulty_world ''Liste.xls'' ''base'' ?cols ?g3 ?s1 = (Inr ?r3, ?s3)"
    by code_simp
  have prem: "(3::int) \<le> 5
        \<and> object_body faulty_world ''Liste.xls'' ''base'' ?cols ?g1 start = (Inr ?r1, ?s1)
        \<and> object_body faulty_world ''Liste.xls'' ''base'' ?cols ?g2 ?s1
              = (Inl (PyExn ''Permission denied''), ?s1)
        \<and> object_body faulty_world ''Liste.xls'' ''base'' ?cols ?g3 ?s1 = (Inr ?r3, ?s3)"
    using b1 b2 b3 by simp
  have pg: "process_groups faulty_world ''Liste.xls'' ''base'' ?cols 5 0 [?g1, ?g2, ?g3] start =
        ([?r1,
          \<lparr>Source = basename ''Liste.xls'', Object_ID = strip (fst ?g2), Images = [],
            Description = ''Error: Processing error: '' @ exn_str (PyExn ''Permission denied'')\<rparr>,
          ?r3], ?s3)"
    by (rule partial_failure_isolation [THEN conjunct2, THEN conjunct2, rule_format, OF prem])
  have bn: "basename ''Liste.xls'' = ''Liste.xls''" by code_simp
  have st: "strip ''AK/2019/002'' = ''AK/2019/002''" by code_simp
  have t1: "''t1'' \<in> set ?cols" by simp
  have "process_excel faulty_world three_table ''Liste.xls'' ''base'' 1 3 5 start =
        (Inr [?r1,
          \<lparr>Source = basename ''Liste.xls'', Object_ID = strip (fst ?g2), Images = [],
            Description = ''Error: Processing error: '' @ exn_str (PyExn ''Permission denied'')\<rparr>,
          ?r3], ?s3)"
    by (rule process_excel_groups [OF cols t1 gb pg])
  then show ?thesis by (simp add: bn st)
qed

end
